theory Spec2Isabelle
  imports Main
begin

section \<open>Keyboard shortcuts of app/modules/gui.cpp\<close>

text \<open>
  The development embeds the keyboard-shortcut part of \<^verbatim>\<open>src/app/modules/gui.cpp\<close>:
  the \<^verbatim>\<open>Shortcut\<close> struct, the registry \<^verbatim>\<open>shortcuts\<close> (a vector of pointers), the four
  registration functions, the lookups and accessors, \<^verbatim>\<open>get_selected_quicktool\<close> and the
  \<^verbatim>\<open>kKeyDownMessage\<close> case of \<^verbatim>\<open>CustomizedGuiManager::onProcessMessage\<close>.

  Pointers are identities: a tool, a command and a window are natural numbers, a pointer
  that may be \<^verbatim>\<open>NULL\<close> is an \<open>option\<close>, and a pointer into the registry is the position of
  the shortcut in the list, so that a mutation through the pointer is a list update.
  The global registry and the application state the code reads through singletons are
  passed explicitly.
\<close>

subsection \<open>Data\<close>

datatype KeyContext = Any | Normal | Selection

datatype shortcut_type = ExecuteCommand | ChangeTool | EditorQuicktool | SpriteEditor

type_synonym tool = nat
type_synonym command = nat
type_synonym window = nat

text \<open>
  \<^verbatim>\<open>Params\<close> is declared outside this file; the code only creates an empty one, clones one,
  asks \<^verbatim>\<open>empty()\<close> and compares two with \<^verbatim>\<open>==\<close>. It is a list of key/value pairs here,
  the empty parameter set being \<open>[]\<close>.
\<close>

type_synonym Params = "(string \<times> string) list"

text \<open>The three values \<^verbatim>\<open>Shortcut::is_pressed\<close> reads from a key message.\<close>

record KeyMessage =
  keyModifiers :: nat
  scancode :: nat
  unicodeChar :: nat

text \<open>The Allegro key array: the scancodes that are down at the moment of the poll.\<close>

type_synonym key_array = "nat list"

text \<open>
  Modelled from the spec: the \<^verbatim>\<open>Accelerator\<close> class (ui library) is not among the sources.
  The spec describes a chord as modifiers, a key code and an optional character, an
  accelerator as the chords accumulated for one binding ("a binding may accumulate multiple
  key chords by adding them to the same accelerator"), and its tests as opaque capabilities.
  So an accelerator is the list of its chords, and what the component decides by itself
  (the grammar of chord strings, whether one chord matches a key event, whether one chord
  is held in the key array) is a parameter.
\<close>

record KeyCombo =
  modifiers :: nat
  keycode :: nat
  character :: nat

type_synonym Accelerator = "KeyCombo list"

record accel_api =
  parseKeys :: "string \<Rightarrow> KeyCombo list"
  comboCheck :: "KeyCombo \<Rightarrow> KeyMessage \<Rightarrow> bool"
  comboHeld :: "KeyCombo \<Rightarrow> key_array \<Rightarrow> bool"

definition addKeysFromString :: "accel_api \<Rightarrow> Accelerator \<Rightarrow> string \<Rightarrow> Accelerator" where
  "addKeysFromString A acc str = acc @ parseKeys A str"

definition check :: "accel_api \<Rightarrow> Accelerator \<Rightarrow> KeyMessage \<Rightarrow> bool" where
  "check A acc msg = list_ex (\<lambda>c. comboCheck A c msg) acc"

definition checkFromAllegroKeyArray :: "accel_api \<Rightarrow> Accelerator \<Rightarrow> key_array \<Rightarrow> bool" where
  "checkFromAllegroKeyArray A acc ks = list_ex (\<lambda>c. comboHeld A c ks) acc"

text \<open>
  \<^verbatim>\<open>struct Shortcut\<close>. The constructor always allocates \<^verbatim>\<open>accel\<close> and nothing resets it,
  so the field holds the accelerator itself and the guard \<^verbatim>\<open>if (accel)\<close> of the two
  \<^verbatim>\<open>is_pressed\<close> functions is always taken.
\<close>

record Shortcut =
  accel :: Accelerator
  type :: shortcut_type
  command :: "command option"
  keycontext :: KeyContext
  tool :: "tool option"
  action :: string
  params :: "Params option"

text \<open>The application state that the shortcut code reads through singletons.\<close>

record Document =
  isMaskVisible :: bool

record app_env =
  getCommandByName :: "string \<Rightarrow> command option"
  activeDocument :: "Document option"
  getCurrentTool :: tool
  inkIsSelection :: "tool \<Rightarrow> bool"
  toolbox :: "tool list"
  isToolVisible :: "tool \<Rightarrow> bool"
  getChildren :: "window list"
  isForeground :: "window \<Rightarrow> bool"
  isDesktop :: "window \<Rightarrow> bool"
  getMainWindow :: window
  key :: key_array

subsection \<open>The interaction context and the two tests of a shortcut\<close>

definition get_current_keycontext :: "app_env \<Rightarrow> KeyContext" where
  "get_current_keycontext E =
     (case activeDocument E of
        None \<Rightarrow> Normal
      | Some doc \<Rightarrow>
          if isMaskVisible doc \<and> inkIsSelection E (getCurrentTool E)
          then Selection else Normal)"

definition new_Shortcut :: "shortcut_type \<Rightarrow> Shortcut" where
  "new_Shortcut ty =
     \<lparr>accel = [], type = ty, command = None, keycontext = Any, tool = None,
      action = [], params = None\<rparr>"

definition add_shortcut :: "accel_api \<Rightarrow> Shortcut \<Rightarrow> string \<Rightarrow> Shortcut" where
  "add_shortcut A s shortcut_string =
     s\<lparr>accel := addKeysFromString A (accel s) shortcut_string\<rparr>"

definition is_pressed :: "accel_api \<Rightarrow> app_env \<Rightarrow> Shortcut \<Rightarrow> KeyMessage \<Rightarrow> bool" where
  "is_pressed A E s msg =
     (let res = check A (accel s) msg
      in if res \<and> keycontext s \<noteq> Any \<and> keycontext s \<noteq> get_current_keycontext E
         then False else res)"

definition is_pressed_from_key_array :: "accel_api \<Rightarrow> app_env \<Rightarrow> Shortcut \<Rightarrow> bool" where
  "is_pressed_from_key_array A E s =
     (let res = checkFromAllegroKeyArray A (accel s) (key E)
      in if res \<and> keycontext s \<noteq> Any \<and> keycontext s \<noteq> get_current_keycontext E
         then False else res)"

subsection \<open>Lookups\<close>

text \<open>
  The loop \<^verbatim>\<open>for (Shortcut* shortcut : *shortcuts) if (...) return shortcut; return NULL;\<close>
  of the four lookups: the position of the first shortcut that passes the test.
\<close>

fun first_index :: "('a \<Rightarrow> bool) \<Rightarrow> 'a list \<Rightarrow> nat option" where
  "first_index P [] = None"
| "first_index P (x # xs) =
     (if P x then Some 0 else map_option Suc (first_index P xs))"

text \<open>
  The test of \<^verbatim>\<open>get_keyboard_shortcut_for_command\<close>. The parameters of a shortcut of type
  \<^verbatim>\<open>ExecuteCommand\<close> are never \<^verbatim>\<open>NULL\<close> (the last part of \<open>registry_inv\<close>, which lemma
  \<open>registry_inv_registered\<close> establishes), so the branch for \<open>None\<close> stands for a
  dereference that the registration functions exclude.
\<close>

definition same_command :: "command \<Rightarrow> Params option \<Rightarrow> Shortcut \<Rightarrow> bool" where
  "same_command c ps s =
     (type s = ExecuteCommand \<and> command s = Some c \<and>
      (case params s of
         None \<Rightarrow> False
       | Some sp \<Rightarrow> (case ps of None \<Rightarrow> sp = [] | Some p \<Rightarrow> sp = p)))"

definition get_keyboard_shortcut_for_command ::
  "app_env \<Rightarrow> Shortcut list \<Rightarrow> string \<Rightarrow> Params option \<Rightarrow> nat option" where
  "get_keyboard_shortcut_for_command E shortcuts command_name ps =
     (case getCommandByName E command_name of
        None \<Rightarrow> None
      | Some c \<Rightarrow> first_index (same_command c ps) shortcuts)"

text \<open>The tests of the other three lookups.\<close>

definition for_tool :: "tool option \<Rightarrow> Shortcut \<Rightarrow> bool" where
  "for_tool t s = (type s = ChangeTool \<and> tool s = t)"

definition for_quicktool :: "tool option \<Rightarrow> Shortcut \<Rightarrow> bool" where
  "for_quicktool t s = (type s = EditorQuicktool \<and> tool s = t)"

definition for_spriteeditor :: "string \<Rightarrow> Shortcut \<Rightarrow> bool" where
  "for_spriteeditor action_name s = (type s = SpriteEditor \<and> action s = action_name)"

definition get_keyboard_shortcut_for_tool :: "Shortcut list \<Rightarrow> tool option \<Rightarrow> nat option" where
  "get_keyboard_shortcut_for_tool shortcuts t = first_index (for_tool t) shortcuts"

definition get_keyboard_shortcut_for_quicktool :: "Shortcut list \<Rightarrow> tool option \<Rightarrow> nat option" where
  "get_keyboard_shortcut_for_quicktool shortcuts t = first_index (for_quicktool t) shortcuts"

definition get_keyboard_shortcut_for_spriteeditor :: "Shortcut list \<Rightarrow> string \<Rightarrow> nat option" where
  "get_keyboard_shortcut_for_spriteeditor shortcuts action_name =
     first_index (for_spriteeditor action_name) shortcuts"

subsection \<open>Registration\<close>

text \<open>
  Each registration function looks the binding up, creates and appends it when there is
  none, adds the chords of the string to the binding's accelerator, and returns that
  accelerator. The model returns the accelerator together with the new registry.
\<close>

definition add_keyboard_shortcut_to_execute_command ::
  "accel_api \<Rightarrow> app_env \<Rightarrow> string \<Rightarrow> string \<Rightarrow> Params option \<Rightarrow> KeyContext \<Rightarrow>
   Shortcut list \<Rightarrow> Accelerator \<times> Shortcut list" where
  "add_keyboard_shortcut_to_execute_command A E shortcut_string command_name ps keyContext shortcuts =
     (case get_keyboard_shortcut_for_command E shortcuts command_name ps of
        None \<Rightarrow>
          let shortcut = add_shortcut A
                ((new_Shortcut ExecuteCommand)
                   \<lparr>command := getCommandByName E command_name,
                    params := Some (case ps of Some p \<Rightarrow> p | None \<Rightarrow> []),
                    keycontext := keyContext\<rparr>)
                shortcut_string
          in (accel shortcut, shortcuts @ [shortcut])
      | Some i \<Rightarrow>
          let shortcut = add_shortcut A (shortcuts ! i) shortcut_string
          in (accel shortcut, shortcuts[i := shortcut]))"

definition add_keyboard_shortcut_to_change_tool ::
  "accel_api \<Rightarrow> string \<Rightarrow> tool option \<Rightarrow> Shortcut list \<Rightarrow> Accelerator \<times> Shortcut list" where
  "add_keyboard_shortcut_to_change_tool A shortcut_string t shortcuts =
     (case get_keyboard_shortcut_for_tool shortcuts t of
        None \<Rightarrow>
          let shortcut = add_shortcut A ((new_Shortcut ChangeTool)\<lparr>tool := t\<rparr>) shortcut_string
          in (accel shortcut, shortcuts @ [shortcut])
      | Some i \<Rightarrow>
          let shortcut = add_shortcut A (shortcuts ! i) shortcut_string
          in (accel shortcut, shortcuts[i := shortcut]))"

definition add_keyboard_shortcut_to_quicktool ::
  "accel_api \<Rightarrow> string \<Rightarrow> tool option \<Rightarrow> Shortcut list \<Rightarrow> Accelerator \<times> Shortcut list" where
  "add_keyboard_shortcut_to_quicktool A shortcut_string t shortcuts =
     (case get_keyboard_shortcut_for_quicktool shortcuts t of
        None \<Rightarrow>
          let shortcut = add_shortcut A ((new_Shortcut EditorQuicktool)\<lparr>tool := t\<rparr>) shortcut_string
          in (accel shortcut, shortcuts @ [shortcut])
      | Some i \<Rightarrow>
          let shortcut = add_shortcut A (shortcuts ! i) shortcut_string
          in (accel shortcut, shortcuts[i := shortcut]))"

definition add_keyboard_shortcut_to_spriteeditor ::
  "accel_api \<Rightarrow> string \<Rightarrow> string \<Rightarrow> Shortcut list \<Rightarrow> Accelerator \<times> Shortcut list" where
  "add_keyboard_shortcut_to_spriteeditor A shortcut_string action_name shortcuts =
     (case get_keyboard_shortcut_for_spriteeditor shortcuts action_name of
        None \<Rightarrow>
          let shortcut = add_shortcut A ((new_Shortcut SpriteEditor)\<lparr>action := action_name\<rparr>)
                shortcut_string
          in (accel shortcut, shortcuts @ [shortcut])
      | Some i \<Rightarrow>
          let shortcut = add_shortcut A (shortcuts ! i) shortcut_string
          in (accel shortcut, shortcuts[i := shortcut]))"

subsection \<open>Resolution and accessors\<close>

text \<open>
  \<^verbatim>\<open>get_command_from_key_message\<close> returns \<^verbatim>\<open>false\<close> (\<open>None\<close>) or \<^verbatim>\<open>true\<close> with the command and
  the parameters of the first pressed shortcut of type \<^verbatim>\<open>ExecuteCommand\<close>.
\<close>

fun get_command_from_key_message ::
  "accel_api \<Rightarrow> app_env \<Rightarrow> Shortcut list \<Rightarrow> KeyMessage \<Rightarrow> (command option \<times> Params option) option" where
  "get_command_from_key_message A E [] msg = None"
| "get_command_from_key_message A E (shortcut # rest) msg =
     (if type shortcut = ExecuteCommand \<and> is_pressed A E shortcut msg
      then Some (command shortcut, params shortcut)
      else get_command_from_key_message A E rest msg)"

definition accel_at :: "Shortcut list \<Rightarrow> nat option \<Rightarrow> Accelerator option" where
  "accel_at shortcuts found =
     (case found of Some i \<Rightarrow> Some (accel (shortcuts ! i)) | None \<Rightarrow> None)"

definition get_accel_to_execute_command ::
  "app_env \<Rightarrow> Shortcut list \<Rightarrow> string \<Rightarrow> Params option \<Rightarrow> Accelerator option" where
  "get_accel_to_execute_command E shortcuts command_name ps =
     accel_at shortcuts (get_keyboard_shortcut_for_command E shortcuts command_name ps)"

definition get_accel_to_change_tool :: "Shortcut list \<Rightarrow> tool option \<Rightarrow> Accelerator option" where
  "get_accel_to_change_tool shortcuts t =
     accel_at shortcuts (get_keyboard_shortcut_for_tool shortcuts t)"

definition SPRITEDITOR_ACTION_COPYSELECTION :: string where
  "SPRITEDITOR_ACTION_COPYSELECTION = ''CopySelection''"

definition SPRITEDITOR_ACTION_SNAPTOGRID :: string where
  "SPRITEDITOR_ACTION_SNAPTOGRID = ''SnapToGrid''"

definition SPRITEDITOR_ACTION_ANGLESNAP :: string where
  "SPRITEDITOR_ACTION_ANGLESNAP = ''AngleSnap''"

definition SPRITEDITOR_ACTION_MAINTAINASPECTRATIO :: string where
  "SPRITEDITOR_ACTION_MAINTAINASPECTRATIO = ''MaintainAspectRatio''"

definition SPRITEDITOR_ACTION_LOCKAXIS :: string where
  "SPRITEDITOR_ACTION_LOCKAXIS = ''LockAxis''"

definition SPRITEDITOR_ACTION_ADDSEL :: string where
  "SPRITEDITOR_ACTION_ADDSEL = ''AddSelection''"

definition SPRITEDITOR_ACTION_SUBSEL :: string where
  "SPRITEDITOR_ACTION_SUBSEL = ''SubtractSelection''"

definition get_accel_to_copy_selection :: "Shortcut list \<Rightarrow> Accelerator option" where
  "get_accel_to_copy_selection shortcuts =
     accel_at shortcuts
       (get_keyboard_shortcut_for_spriteeditor shortcuts SPRITEDITOR_ACTION_COPYSELECTION)"

definition get_accel_to_snap_to_grid :: "Shortcut list \<Rightarrow> Accelerator option" where
  "get_accel_to_snap_to_grid shortcuts =
     accel_at shortcuts
       (get_keyboard_shortcut_for_spriteeditor shortcuts SPRITEDITOR_ACTION_SNAPTOGRID)"

definition get_accel_to_angle_snap :: "Shortcut list \<Rightarrow> Accelerator option" where
  "get_accel_to_angle_snap shortcuts =
     accel_at shortcuts
       (get_keyboard_shortcut_for_spriteeditor shortcuts SPRITEDITOR_ACTION_ANGLESNAP)"

definition get_accel_to_maintain_aspect_ratio :: "Shortcut list \<Rightarrow> Accelerator option" where
  "get_accel_to_maintain_aspect_ratio shortcuts =
     accel_at shortcuts
       (get_keyboard_shortcut_for_spriteeditor shortcuts SPRITEDITOR_ACTION_MAINTAINASPECTRATIO)"

definition get_accel_to_lock_axis :: "Shortcut list \<Rightarrow> Accelerator option" where
  "get_accel_to_lock_axis shortcuts =
     accel_at shortcuts
       (get_keyboard_shortcut_for_spriteeditor shortcuts SPRITEDITOR_ACTION_LOCKAXIS)"

definition get_accel_to_add_selection :: "Shortcut list \<Rightarrow> Accelerator option" where
  "get_accel_to_add_selection shortcuts =
     accel_at shortcuts
       (get_keyboard_shortcut_for_spriteeditor shortcuts SPRITEDITOR_ACTION_ADDSEL)"

definition get_accel_to_subtract_selection :: "Shortcut list \<Rightarrow> Accelerator option" where
  "get_accel_to_subtract_selection shortcuts =
     accel_at shortcuts
       (get_keyboard_shortcut_for_spriteeditor shortcuts SPRITEDITOR_ACTION_SUBSEL)"

subsection \<open>The quick-tool query\<close>

text \<open>The loop over the toolbox of \<^verbatim>\<open>get_selected_quicktool\<close>.\<close>

fun quicktool_loop :: "accel_api \<Rightarrow> app_env \<Rightarrow> Shortcut list \<Rightarrow> tool list \<Rightarrow> tool option" where
  "quicktool_loop A E shortcuts [] = None"
| "quicktool_loop A E shortcuts (t # rest) =
     (case get_keyboard_shortcut_for_quicktool shortcuts (Some t) of
        Some i \<Rightarrow>
          if is_pressed_from_key_array A E (shortcuts ! i) then Some t
          else quicktool_loop A E shortcuts rest
      | None \<Rightarrow> quicktool_loop A E shortcuts rest)"

definition get_selected_quicktool ::
  "accel_api \<Rightarrow> app_env \<Rightarrow> Shortcut list \<Rightarrow> tool option \<Rightarrow> tool option" where
  "get_selected_quicktool A E shortcuts currentTool =
     (if (case currentTool of Some t \<Rightarrow> inkIsSelection E t | None \<Rightarrow> False) \<and>
         (case get_accel_to_copy_selection shortcuts of
            Some copyselection_accel \<Rightarrow> checkFromAllegroKeyArray A copyselection_accel (key E)
          | None \<Rightarrow> False)
      then None
      else quicktool_loop A E shortcuts (toolbox E))"

subsection \<open>Key-down dispatch\<close>

text \<open>
  What \<^verbatim>\<open>onProcessMessage\<close> does to the rest of the application, in order, and how it
  returns: \<^verbatim>\<open>return true\<close>, or \<^verbatim>\<open>return Manager::onProcessMessage(msg)\<close>, the default
  processing of a message that this handler did not consume.
\<close>

datatype effect =
  MenuBar_cancelMenuLoop
| ToolBar_selectTool "tool option"
| UIContext_executeCommand "command option" "Params option"

datatype returned = ReturnTrue | ManagerOnProcessMessage

text \<open>
  Modelled from the spec: \<^verbatim>\<open>Manager::getTopWindow\<close> (ui library) is not among the sources.
  The spec walks the window stack "from top to bottom" and speaks of the window that "is
  currently on top": the top window is the first child of the manager, if there is one.
\<close>

definition getTopWindow :: "app_env \<Rightarrow> window option" where
  "getTopWindow E = (case getChildren E of [] \<Rightarrow> None | w # _ \<Rightarrow> Some w)"

text \<open>The tools of the toolbox whose \<^verbatim>\<open>ChangeTool\<close> shortcut is pressed, in toolbox order.\<close>

definition possibles :: "accel_api \<Rightarrow> app_env \<Rightarrow> Shortcut list \<Rightarrow> KeyMessage \<Rightarrow> tool list" where
  "possibles A E shortcuts msg =
     filter
       (\<lambda>t. case get_keyboard_shortcut_for_tool shortcuts (Some t) of
              Some i \<Rightarrow> is_pressed A E (shortcuts ! i) msg
            | None \<Rightarrow> False)
       (toolbox E)"

text \<open>The first loop of the tie-break: a possible tool that is not the current one and is visible.\<close>

fun first_other_visible :: "app_env \<Rightarrow> tool \<Rightarrow> tool list \<Rightarrow> tool option" where
  "first_other_visible E current_tool [] = None"
| "first_other_visible E current_tool (p # rest) =
     (if p \<noteq> current_tool \<and> isToolVisible E p then Some p
      else first_other_visible E current_tool rest)"

text \<open>
  The second loop: at the first position \<open>i\<close> that holds the current tool, the tool at
  \<open>(i + 1) % possibles.size()\<close>. The last argument is the part of the vector still to visit.
\<close>

fun next_possible :: "tool \<Rightarrow> tool list \<Rightarrow> nat \<Rightarrow> tool list \<Rightarrow> tool option" where
  "next_possible current_tool ps i [] = None"
| "next_possible current_tool ps i (p # rest) =
     (if p = current_tool then Some (ps ! ((i + 1) mod length ps))
      else next_possible current_tool ps (Suc i) rest)"

definition select_this_tool :: "app_env \<Rightarrow> Shortcut \<Rightarrow> tool list \<Rightarrow> tool option" where
  "select_this_tool E shortcut ps =
     (if 2 \<le> length ps then
        (case first_other_visible E (getCurrentTool E) ps of
           Some p \<Rightarrow> Some p
         | None \<Rightarrow>
             (case next_possible (getCurrentTool E) ps 0 ps of
                Some p \<Rightarrow> Some p
              | None \<Rightarrow> tool shortcut))
      else tool shortcut)"

text \<open>The loop over the children of the manager in the \<^verbatim>\<open>ExecuteCommand\<close> case.\<close>

fun execute_loop :: "app_env \<Rightarrow> Shortcut \<Rightarrow> window list \<Rightarrow> effect list \<times> returned" where
  "execute_loop E shortcut [] = ([], ManagerOnProcessMessage)"
| "execute_loop E shortcut (child # rest) =
     (if isForeground E child then ([], ManagerOnProcessMessage)
      else if isDesktop E child \<and> child = getMainWindow E
      then ([UIContext_executeCommand (command shortcut) (params shortcut)], ReturnTrue)
      else execute_loop E shortcut rest)"

text \<open>The body of \<^verbatim>\<open>if (shortcut->is_pressed(msg))\<close>, which ends the scan in every case.\<close>

definition on_pressed ::
  "accel_api \<Rightarrow> app_env \<Rightarrow> Shortcut list \<Rightarrow> KeyMessage \<Rightarrow> Shortcut \<Rightarrow> effect list \<times> returned" where
  "on_pressed A E shortcuts msg shortcut =
     (case type shortcut of
        ChangeTool \<Rightarrow>
          ([MenuBar_cancelMenuLoop,
            ToolBar_selectTool (select_this_tool E shortcut (possibles A E shortcuts msg))],
           ReturnTrue)
      | ExecuteCommand \<Rightarrow>
          (case execute_loop E shortcut (getChildren E) of
             (effects, r) \<Rightarrow> (MenuBar_cancelMenuLoop # effects, r))
      | EditorQuicktool \<Rightarrow> ([MenuBar_cancelMenuLoop], ManagerOnProcessMessage)
      | SpriteEditor \<Rightarrow> ([MenuBar_cancelMenuLoop], ManagerOnProcessMessage))"

text \<open>The scan \<^verbatim>\<open>for (Shortcut* shortcut : *shortcuts)\<close>; \<open>shortcuts\<close> is the whole registry.\<close>

fun shortcut_scan ::
  "accel_api \<Rightarrow> app_env \<Rightarrow> Shortcut list \<Rightarrow> KeyMessage \<Rightarrow> Shortcut list \<Rightarrow> effect list \<times> returned" where
  "shortcut_scan A E shortcuts msg [] = ([], ManagerOnProcessMessage)"
| "shortcut_scan A E shortcuts msg (shortcut # rest) =
     (if is_pressed A E shortcut msg then on_pressed A E shortcuts msg shortcut
      else shortcut_scan A E shortcuts msg rest)"

text \<open>The case \<^verbatim>\<open>kKeyDownMessage\<close> of \<^verbatim>\<open>CustomizedGuiManager::onProcessMessage\<close>.\<close>

definition foreground_on_top :: "app_env \<Rightarrow> bool" where
  "foreground_on_top E =
     (case getTopWindow E of
        Some toplevel_window \<Rightarrow>
          toplevel_window \<noteq> getMainWindow E \<and> isForeground E toplevel_window
      | None \<Rightarrow> False)"

definition onProcessMessage_KeyDown ::
  "accel_api \<Rightarrow> app_env \<Rightarrow> Shortcut list \<Rightarrow> KeyMessage \<Rightarrow> effect list \<times> returned" where
  "onProcessMessage_KeyDown A E shortcuts msg =
     (if foreground_on_top E then ([], ManagerOnProcessMessage)
      else shortcut_scan A E shortcuts msg shortcuts)"

subsection \<open>Registries built by the registration functions\<close>

text \<open>
  \<^verbatim>\<open>init_module_gui\<close> creates the registry empty, and only the four registration functions
  add to it. A call is recorded with its arguments; \<open>registered\<close> is the registry after a
  sequence of calls.
\<close>

datatype registration =
  RegCommand string string "Params option" KeyContext
| RegTool string "tool option"
| RegQuicktool string "tool option"
| RegSpriteEditor string string

fun register :: "accel_api \<Rightarrow> app_env \<Rightarrow> Shortcut list \<Rightarrow> registration \<Rightarrow> Shortcut list" where
  "register A E shortcuts (RegCommand str name ps kc) =
     snd (add_keyboard_shortcut_to_execute_command A E str name ps kc shortcuts)"
| "register A E shortcuts (RegTool str t) =
     snd (add_keyboard_shortcut_to_change_tool A str t shortcuts)"
| "register A E shortcuts (RegQuicktool str t) =
     snd (add_keyboard_shortcut_to_quicktool A str t shortcuts)"
| "register A E shortcuts (RegSpriteEditor str action_name) =
     snd (add_keyboard_shortcut_to_spriteeditor A str action_name shortcuts)"

definition registered :: "accel_api \<Rightarrow> app_env \<Rightarrow> registration list \<Rightarrow> Shortcut list" where
  "registered A E calls = foldl (register A E) [] calls"

text \<open>The binding that a call asks for: its kind and its command, tool or action name.\<close>

fun called_for :: "app_env \<Rightarrow> registration \<Rightarrow> Shortcut \<Rightarrow> bool" where
  "called_for E (RegCommand str name ps kc) s =
     (type s = ExecuteCommand \<and> command s = getCommandByName E name)"
| "called_for E (RegTool str t) s = (type s = ChangeTool \<and> tool s = t)"
| "called_for E (RegQuicktool str t) s = (type s = EditorQuicktool \<and> tool s = t)"
| "called_for E (RegSpriteEditor str action_name) s =
     (type s = SpriteEditor \<and> action s = action_name)"

text \<open>
  The invariant of the registry: at most one binding for a command with a parameter set,
  for a tool of each of the two tool kinds and for an action name, and parameters on
  every binding of a command.
\<close>

definition registry_inv :: "Shortcut list \<Rightarrow> bool" where
  "registry_inv shortcuts =
     ((\<forall>c ps. length (filter (same_command c ps) shortcuts) \<le> 1) \<and>
      (\<forall>t. length (filter (for_tool t) shortcuts) \<le> 1) \<and>
      (\<forall>t. length (filter (for_quicktool t) shortcuts) \<le> 1) \<and>
      (\<forall>a. length (filter (for_spriteeditor a) shortcuts) \<le> 1) \<and>
      (\<forall>s \<in> set shortcuts. type s = ExecuteCommand \<longrightarrow> params s \<noteq> None))"

text \<open>
  The shape the four registration functions share, for the proofs: look up with a test,
  append a new binding or update the one found.
\<close>

definition register_with ::
  "accel_api \<Rightarrow> (Shortcut \<Rightarrow> bool) \<Rightarrow> Shortcut \<Rightarrow> string \<Rightarrow> Shortcut list \<Rightarrow> Shortcut list" where
  "register_with A P fresh str shortcuts =
     (case first_index P shortcuts of
        None \<Rightarrow> shortcuts @ [add_shortcut A fresh str]
      | Some i \<Rightarrow> shortcuts[i := add_shortcut A (shortcuts ! i) str])"

text \<open>The accelerator that such a registration returns.\<close>

definition register_accel ::
  "accel_api \<Rightarrow> (Shortcut \<Rightarrow> bool) \<Rightarrow> Shortcut \<Rightarrow> string \<Rightarrow> Shortcut list \<Rightarrow> Accelerator" where
  "register_accel A P fresh str shortcuts =
     (case first_index P shortcuts of
        None \<Rightarrow> accel fresh
      | Some i \<Rightarrow> accel (shortcuts ! i)) @ parseKeys A str"

subsection \<open>A concrete application state\<close>

text \<open>
  Values at which the theorems below are instantiated. The accelerator component knows
  three chord strings; a chord matches a key message with the same modifiers and key
  code, and is held when its key code is down. Command 21 is named NewFile. The toolbox
  has the tools 11 to 14, of which 12 and 14 are hidden in the tool bar and 13 has a
  selection ink; tool 11 is the current one. The main window is window 30, window 37 is
  a foreground dialog and window 35 is neither.
\<close>

definition ex_api :: accel_api where
  "ex_api =
     \<lparr>parseKeys = (\<lambda>str.
        if str = ''Ctrl+N'' then [\<lparr>modifiers = 2, keycode = 14, character = 0\<rparr>]
        else if str = ''M'' then [\<lparr>modifiers = 0, keycode = 13, character = 0\<rparr>]
        else if str = ''Ctrl'' then [\<lparr>modifiers = 2, keycode = 0, character = 0\<rparr>]
        else []),
      comboCheck = (\<lambda>c msg. modifiers c = keyModifiers msg \<and> keycode c = scancode msg),
      comboHeld = (\<lambda>c ks. keycode c \<in> set ks)\<rparr>"

definition ex_env :: app_env where
  "ex_env =
     \<lparr>getCommandByName = (\<lambda>name. if name = ''NewFile'' then Some 21 else None),
      activeDocument = None,
      getCurrentTool = 11,
      inkIsSelection = (\<lambda>t. t = 13),
      toolbox = [11, 12, 13, 14],
      isToolVisible = (\<lambda>t. t \<noteq> 12 \<and> t \<noteq> 14),
      getChildren = [30],
      isForeground = (\<lambda>w. w = 37),
      isDesktop = (\<lambda>w. w = 30),
      getMainWindow = 30,
      key = []\<rparr>"

definition ex_env_selection :: app_env where
  "ex_env_selection =
     ex_env\<lparr>activeDocument := Some \<lparr>isMaskVisible = True\<rparr>, getCurrentTool := 13\<rparr>"

definition msg_CtrlN :: KeyMessage where
  "msg_CtrlN = \<lparr>keyModifiers = 2, scancode = 14, unicodeChar = 0\<rparr>"

definition msg_M :: KeyMessage where
  "msg_M = \<lparr>keyModifiers = 0, scancode = 13, unicodeChar = 0\<rparr>"

text \<open>The bindings that the registration functions build from one chord string.\<close>

definition ex_tool :: "string \<Rightarrow> tool \<Rightarrow> Shortcut" where
  "ex_tool str t =
     \<lparr>accel = parseKeys ex_api str, type = ChangeTool, command = None, keycontext = Any,
      tool = Some t, action = [], params = None\<rparr>"

definition ex_quicktool :: "string \<Rightarrow> tool \<Rightarrow> Shortcut" where
  "ex_quicktool str t =
     \<lparr>accel = parseKeys ex_api str, type = EditorQuicktool, command = None, keycontext = Any,
      tool = Some t, action = [], params = None\<rparr>"

definition ex_spriteeditor :: "string \<Rightarrow> string \<Rightarrow> Shortcut" where
  "ex_spriteeditor str action_name =
     \<lparr>accel = parseKeys ex_api str, type = SpriteEditor, command = None, keycontext = Any,
      tool = None, action = action_name, params = None\<rparr>"

definition ex_command :: "string \<Rightarrow> command \<Rightarrow> KeyContext \<Rightarrow> Shortcut" where
  "ex_command str c kc =
     \<lparr>accel = parseKeys ex_api str, type = ExecuteCommand, command = Some c, keycontext = kc,
      tool = None, action = [], params = Some []\<rparr>"

section \<open>Properties\<close>

subsection \<open>The first index of a test\<close>

lemma first_index_None_iff: "first_index P xs = None \<longleftrightarrow> (\<forall>x \<in> set xs. \<not> P x)"
  by (induction xs) auto

lemma first_index_SomeD:
  "first_index P xs = Some i \<Longrightarrow> i < length xs \<and> P (xs ! i) \<and> (\<forall>j<i. \<not> P (xs ! j))"
proof (induction xs arbitrary: i)
  case Nil
  then show ?case by simp
next
  case (Cons x xs)
  show ?case
  proof (cases "P x")
    case True
    with Cons.prems show ?thesis by simp
  next
    case False
    with Cons.prems obtain k where k: "first_index P xs = Some k" "i = Suc k"
      by auto
    from Cons.IH [OF k(1)] False k(2) show ?thesis
      by (auto simp: less_Suc_eq_0_disj)
  qed
qed

lemma first_index_filter_None: "first_index P xs = None \<Longrightarrow> filter P xs = []"
  by (simp add: first_index_None_iff)

lemma first_index_pre:
  "\<forall>x \<in> set pre. \<not> P x \<Longrightarrow> P s \<Longrightarrow> first_index P (pre @ s # post) = Some (length pre)"
  by (induction pre) auto

lemma filter_update_keep:
  "i < length xs \<Longrightarrow> Q y = Q (xs ! i) \<Longrightarrow> length (filter Q (xs[i := y])) = length (filter Q xs)"
proof (induction xs arbitrary: i)
  case Nil
  then show ?case by simp
next
  case (Cons x xs)
  then show ?case by (cases i) auto
qed

lemma unique_first:
  "length (filter P xs) \<le> 1 \<Longrightarrow> first_index P xs = Some i \<Longrightarrow> x \<in> set xs \<Longrightarrow> P x \<Longrightarrow> x = xs ! i"
proof (induction xs arbitrary: i)
  case Nil
  then show ?case by simp
next
  case (Cons y ys)
  show ?case
  proof (cases "P y")
    case True
    with Cons.prems have "filter P ys = []" "i = 0" by auto
    with Cons.prems True show ?thesis by (auto simp: filter_empty_conv)
  next
    case False
    with Cons.prems obtain k where k: "first_index P ys = Some k" "i = Suc k" by auto
    from Cons.prems False have "x \<in> set ys" "length (filter P ys) \<le> 1" by auto
    from Cons.IH [OF this(2) k(1) this(1) Cons.prems(4)] k(2) show ?thesis by simp
  qed
qed

lemma add_shortcut_fields [simp]:
  "type (add_shortcut A s str) = type s"
  "command (add_shortcut A s str) = command s"
  "keycontext (add_shortcut A s str) = keycontext s"
  "tool (add_shortcut A s str) = tool s"
  "action (add_shortcut A s str) = action s"
  "params (add_shortcut A s str) = params s"
  "accel (add_shortcut A s str) = accel s @ parseKeys A str"
  by (simp_all add: add_shortcut_def addKeysFromString_def)

lemma tests_add_shortcut [simp]:
  "same_command c ps (add_shortcut A s str) = same_command c ps s"
  "for_tool t (add_shortcut A s str) = for_tool t s"
  "for_quicktool t (add_shortcut A s str) = for_quicktool t s"
  "for_spriteeditor a (add_shortcut A s str) = for_spriteeditor a s"
  by (simp_all add: same_command_def for_tool_def for_quicktool_def for_spriteeditor_def)

lemma add_command_register_with:
  "snd (add_keyboard_shortcut_to_execute_command A E str name ps kc reg) =
     (case getCommandByName E name of
        None \<Rightarrow> reg @ [add_shortcut A ((new_Shortcut ExecuteCommand)
                   \<lparr>command := None, params := Some (case ps of Some p \<Rightarrow> p | None \<Rightarrow> []),
                    keycontext := kc\<rparr>) str]
      | Some c \<Rightarrow> register_with A (same_command c ps)
           ((new_Shortcut ExecuteCommand)
                   \<lparr>command := Some c, params := Some (case ps of Some p \<Rightarrow> p | None \<Rightarrow> []),
                    keycontext := kc\<rparr>) str reg)"
  by (simp add: add_keyboard_shortcut_to_execute_command_def register_with_def
      get_keyboard_shortcut_for_command_def Let_def split: option.splits)

lemma add_tool_register_with:
  "snd (add_keyboard_shortcut_to_change_tool A str t reg) =
     register_with A (for_tool t) ((new_Shortcut ChangeTool)\<lparr>tool := t\<rparr>) str reg"
  by (simp add: add_keyboard_shortcut_to_change_tool_def register_with_def
      get_keyboard_shortcut_for_tool_def Let_def split: option.splits)

lemma add_quicktool_register_with:
  "snd (add_keyboard_shortcut_to_quicktool A str t reg) =
     register_with A (for_quicktool t) ((new_Shortcut EditorQuicktool)\<lparr>tool := t\<rparr>) str reg"
  by (simp add: add_keyboard_shortcut_to_quicktool_def register_with_def
      get_keyboard_shortcut_for_quicktool_def Let_def split: option.splits)

lemma add_spriteeditor_register_with:
  "snd (add_keyboard_shortcut_to_spriteeditor A str a reg) =
     register_with A (for_spriteeditor a) ((new_Shortcut SpriteEditor)\<lparr>action := a\<rparr>) str reg"
  by (simp add: add_keyboard_shortcut_to_spriteeditor_def register_with_def
      get_keyboard_shortcut_for_spriteeditor_def Let_def split: option.splits)

text \<open>How a test Q counts after a registration step.\<close>

lemma count_register_with:
  assumes "\<And>s str. Q (add_shortcut A s str) = Q s"
  shows "length (filter Q (register_with A P fresh str reg)) =
     length (filter Q reg) + (if first_index P reg = None \<and> Q fresh then 1 else 0)"
proof (cases "first_index P reg")
  case None
  then show ?thesis by (simp add: register_with_def assms)
next
  case (Some i)
  from first_index_SomeD [OF Some] have "i < length reg" by simp
  then show ?thesis
    using Some by (simp add: register_with_def filter_update_keep assms)
qed

lemma first_index_SomeI:
  "i < length xs \<Longrightarrow> P (xs ! i) \<Longrightarrow> \<forall>j<i. \<not> P (xs ! j) \<Longrightarrow> first_index P xs = Some i"
proof (induction xs arbitrary: i)
  case Nil
  then show ?case by simp
next
  case (Cons x xs)
  show ?case
  proof (cases i)
    case 0
    with Cons.prems show ?thesis by simp
  next
    case (Suc k)
    with Cons.prems have "\<not> P x" by auto
    moreover from Suc Cons.prems have "first_index P xs = Some k"
      by (intro Cons.IH) auto
    ultimately show ?thesis using Suc by simp
  qed
qed

lemma first_index_mem:
  "first_index P xs = Some i \<Longrightarrow> xs ! i \<in> set xs \<and> P (xs ! i)"
  using first_index_SomeD [of P xs i] by simp

subsection \<open>The registry invariant\<close>

lemma tests_fresh [simp]:
  "same_command c ps ((new_Shortcut ExecuteCommand)\<lparr>command := cmd, params := Some p, keycontext := kc\<rparr>) =
     (cmd = Some c \<and> (case ps of None \<Rightarrow> p = [] | Some q \<Rightarrow> p = q))"
  "for_tool t ((new_Shortcut ExecuteCommand)\<lparr>command := cmd, params := Some p, keycontext := kc\<rparr>) = False"
  "for_quicktool t ((new_Shortcut ExecuteCommand)\<lparr>command := cmd, params := Some p, keycontext := kc\<rparr>) = False"
  "for_spriteeditor a ((new_Shortcut ExecuteCommand)\<lparr>command := cmd, params := Some p, keycontext := kc\<rparr>) = False"
  "same_command c ps ((new_Shortcut ChangeTool)\<lparr>tool := t\<rparr>) = False"
  "for_tool t' ((new_Shortcut ChangeTool)\<lparr>tool := t\<rparr>) = (t = t')"
  "for_quicktool t' ((new_Shortcut ChangeTool)\<lparr>tool := t\<rparr>) = False"
  "for_spriteeditor a ((new_Shortcut ChangeTool)\<lparr>tool := t\<rparr>) = False"
  "same_command c ps ((new_Shortcut EditorQuicktool)\<lparr>tool := t\<rparr>) = False"
  "for_tool t' ((new_Shortcut EditorQuicktool)\<lparr>tool := t\<rparr>) = False"
  "for_quicktool t' ((new_Shortcut EditorQuicktool)\<lparr>tool := t\<rparr>) = (t = t')"
  "for_spriteeditor a ((new_Shortcut EditorQuicktool)\<lparr>tool := t\<rparr>) = False"
  "same_command c ps ((new_Shortcut SpriteEditor)\<lparr>action := a\<rparr>) = False"
  "for_tool t' ((new_Shortcut SpriteEditor)\<lparr>action := a\<rparr>) = False"
  "for_quicktool t' ((new_Shortcut SpriteEditor)\<lparr>action := a\<rparr>) = False"
  "for_spriteeditor a' ((new_Shortcut SpriteEditor)\<lparr>action := a\<rparr>) = (a = a')"
  by (simp_all add: same_command_def for_tool_def for_quicktool_def for_spriteeditor_def
      new_Shortcut_def)

lemma set_register_with:
  assumes x: "x \<in> set (register_with A P fresh str reg)"
  shows "x \<in> set reg \<or> (\<exists>y \<in> insert fresh (set reg). x = add_shortcut A y str)"
proof (cases "first_index P reg")
  case None
  with x have "x = add_shortcut A fresh str \<or> x \<in> set reg"
    by (simp add: register_with_def)
  then show ?thesis by blast
next
  case (Some i)
  from first_index_SomeD [OF Some] have i: "reg ! i \<in> set reg" by simp
  from x Some have "x \<in> set (reg[i := add_shortcut A (reg ! i) str])"
    by (simp add: register_with_def)
  then have "x \<in> insert (add_shortcut A (reg ! i) str) (set reg)"
    by (rule subsetD [OF set_update_subset_insert])
  then have "x = add_shortcut A (reg ! i) str \<or> x \<in> set reg" by simp
  with i show ?thesis by blast
qed

lemma length_register_with:
  "length (register_with A P fresh str reg) =
     length reg + (if first_index P reg = None then 1 else 0)"
  by (simp add: register_with_def split: option.splits)

text \<open>One step keeps the invariant, when the new binding passes the test it was looked up with
  and has parameters if it is a command.\<close>

lemma count_tests:
  "length (filter (same_command c ps) (register_with A P fresh str reg)) =
     length (filter (same_command c ps) reg) +
     (if first_index P reg = None \<and> same_command c ps fresh then 1 else 0)"
  "length (filter (for_tool t) (register_with A P fresh str reg)) =
     length (filter (for_tool t) reg) +
     (if first_index P reg = None \<and> for_tool t fresh then 1 else 0)"
  "length (filter (for_quicktool t) (register_with A P fresh str reg)) =
     length (filter (for_quicktool t) reg) +
     (if first_index P reg = None \<and> for_quicktool t fresh then 1 else 0)"
  "length (filter (for_spriteeditor a) (register_with A P fresh str reg)) =
     length (filter (for_spriteeditor a) reg) +
     (if first_index P reg = None \<and> for_spriteeditor a fresh then 1 else 0)"
  by (rule count_register_with, simp)+

lemma same_command_ext:
  "same_command c ps s \<Longrightarrow> same_command c' ps' s \<Longrightarrow> same_command c ps = same_command c' ps'"
  by (rule ext) (auto simp: same_command_def split: option.splits)

lemma params_ok_register_with:
  assumes old: "\<forall>s \<in> set reg. type s = ExecuteCommand \<longrightarrow> params s \<noteq> None"
    and fresh: "type fresh = ExecuteCommand \<longrightarrow> params fresh \<noteq> None"
  shows "\<forall>s \<in> set (register_with A P fresh str reg). type s = ExecuteCommand \<longrightarrow> params s \<noteq> None"
proof (intro ballI impI)
  fix s assume s: "s \<in> set (register_with A P fresh str reg)" and ty: "type s = ExecuteCommand"
  from set_register_with [OF s] consider "s \<in> set reg"
    | y where "y \<in> set reg" "s = add_shortcut A y str"
    | "s = add_shortcut A fresh str"
    by blast
  then show "params s \<noteq> None"
  proof cases
    case 1
    with old ty show ?thesis by blast
  next
    case 2
    with ty have "type y = ExecuteCommand" by simp
    with old 2 show ?thesis by simp
  next
    case 3
    with ty fresh show ?thesis by simp
  qed
qed

lemma registry_inv_register_command:
  assumes inv: "registry_inv reg"
  shows "registry_inv (register_with A (same_command c ps)
           ((new_Shortcut ExecuteCommand)
              \<lparr>command := Some c, params := Some (case ps of Some p \<Rightarrow> p | None \<Rightarrow> []),
               keycontext := kc\<rparr>)
           str reg)"
    (is "registry_inv (register_with A ?P ?fresh str reg)")
proof -
  have fresh: "same_command c ps ?fresh" by (simp split: option.splits)
  have a: "length (filter (same_command c' ps') (register_with A ?P ?fresh str reg)) \<le> 1" for c' ps'
  proof (cases "first_index ?P reg = None \<and> same_command c' ps' ?fresh")
    case True
    from True have "same_command c' ps' ?fresh" ..
    then have "same_command c' ps' = ?P"
      using fresh by (rule same_command_ext)
    with True have "filter (same_command c' ps') reg = []"
      by (simp add: first_index_filter_None)
    with True show ?thesis by (simp only: count_tests) simp
  next
    case False
    from inv have "length (filter (same_command c' ps') reg) \<le> 1"
      by (simp add: registry_inv_def)
    with False show ?thesis by (simp only: count_tests) auto
  qed
  from inv have b: "length (filter (for_tool t) (register_with A ?P ?fresh str reg)) \<le> 1" for t
    by (simp add: count_tests registry_inv_def)
  from inv have c: "length (filter (for_quicktool t) (register_with A ?P ?fresh str reg)) \<le> 1" for t
    by (simp add: count_tests registry_inv_def)
  from inv have d: "length (filter (for_spriteeditor x) (register_with A ?P ?fresh str reg)) \<le> 1" for x
    by (simp add: count_tests registry_inv_def)
  from inv have e: "\<forall>s \<in> set (register_with A ?P ?fresh str reg).
      type s = ExecuteCommand \<longrightarrow> params s \<noteq> None"
    by (intro params_ok_register_with) (simp_all add: registry_inv_def)
  show ?thesis
    unfolding registry_inv_def
    using e by (intro conjI allI a b c d)
qed


lemma registry_inv_register_tool:
  assumes inv: "registry_inv reg"
  shows "registry_inv (register_with A (for_tool t) ((new_Shortcut ChangeTool)\<lparr>tool := t\<rparr>) str reg)"
    (is "registry_inv (register_with A ?P ?fresh str reg)")
proof -
  from inv have a: "length (filter (same_command c ps) (register_with A ?P ?fresh str reg)) \<le> 1" for c ps
    by (simp add: count_tests registry_inv_def)
  have b: "length (filter (for_tool t') (register_with A ?P ?fresh str reg)) \<le> 1" for t'
  proof (cases "first_index ?P reg = None \<and> t = t'")
    case True
    then have "first_index (for_tool t') reg = None" by auto
    then have "filter (for_tool t') reg = []"
      by (rule first_index_filter_None)
    with True show ?thesis by (simp add: count_tests)
  next
    case False
    from inv have "length (filter (for_tool t') reg) \<le> 1"
      by (simp add: registry_inv_def)
    with False show ?thesis by (auto simp: count_tests)
  qed
  from inv have c: "length (filter (for_quicktool t') (register_with A ?P ?fresh str reg)) \<le> 1" for t'
    by (simp add: count_tests registry_inv_def)
  from inv have d: "length (filter (for_spriteeditor x) (register_with A ?P ?fresh str reg)) \<le> 1" for x
    by (simp add: count_tests registry_inv_def)
  from inv have e: "\<forall>s \<in> set (register_with A ?P ?fresh str reg).
      type s = ExecuteCommand \<longrightarrow> params s \<noteq> None"
    by (intro params_ok_register_with) (simp_all add: registry_inv_def new_Shortcut_def)
  show ?thesis
    unfolding registry_inv_def
    using e by (intro conjI allI a b c d)
qed

lemma registry_inv_register_quicktool:
  assumes inv: "registry_inv reg"
  shows "registry_inv (register_with A (for_quicktool t) ((new_Shortcut EditorQuicktool)\<lparr>tool := t\<rparr>) str reg)"
    (is "registry_inv (register_with A ?P ?fresh str reg)")
proof -
  from inv have a: "length (filter (same_command c ps) (register_with A ?P ?fresh str reg)) \<le> 1" for c ps
    by (simp add: count_tests registry_inv_def)
  from inv have b: "length (filter (for_tool t') (register_with A ?P ?fresh str reg)) \<le> 1" for t'
    by (simp add: count_tests registry_inv_def)
  have c: "length (filter (for_quicktool t') (register_with A ?P ?fresh str reg)) \<le> 1" for t'
  proof (cases "first_index ?P reg = None \<and> t = t'")
    case True
    then have "first_index (for_quicktool t') reg = None" by auto
    then have "filter (for_quicktool t') reg = []"
      by (rule first_index_filter_None)
    with True show ?thesis by (simp add: count_tests)
  next
    case False
    from inv have "length (filter (for_quicktool t') reg) \<le> 1"
      by (simp add: registry_inv_def)
    with False show ?thesis by (auto simp: count_tests)
  qed
  from inv have d: "length (filter (for_spriteeditor x) (register_with A ?P ?fresh str reg)) \<le> 1" for x
    by (simp add: count_tests registry_inv_def)
  from inv have e: "\<forall>s \<in> set (register_with A ?P ?fresh str reg).
      type s = ExecuteCommand \<longrightarrow> params s \<noteq> None"
    by (intro params_ok_register_with) (simp_all add: registry_inv_def new_Shortcut_def)
  show ?thesis
    unfolding registry_inv_def
    using e by (intro conjI allI a b c d)
qed

lemma registry_inv_register_spriteeditor:
  assumes inv: "registry_inv reg"
  shows "registry_inv (register_with A (for_spriteeditor n) ((new_Shortcut SpriteEditor)\<lparr>action := n\<rparr>) str reg)"
    (is "registry_inv (register_with A ?P ?fresh str reg)")
proof -
  from inv have a: "length (filter (same_command c ps) (register_with A ?P ?fresh str reg)) \<le> 1" for c ps
    by (simp add: count_tests registry_inv_def)
  from inv have b: "length (filter (for_tool t') (register_with A ?P ?fresh str reg)) \<le> 1" for t'
    by (simp add: count_tests registry_inv_def)
  from inv have c: "length (filter (for_quicktool t') (register_with A ?P ?fresh str reg)) \<le> 1" for t'
    by (simp add: count_tests registry_inv_def)
  have d: "length (filter (for_spriteeditor x) (register_with A ?P ?fresh str reg)) \<le> 1" for x
  proof (cases "first_index ?P reg = None \<and> n = x")
    case True
    then have "first_index (for_spriteeditor x) reg = None" by auto
    then have "filter (for_spriteeditor x) reg = []"
      by (rule first_index_filter_None)
    with True show ?thesis by (simp add: count_tests)
  next
    case False
    from inv have "length (filter (for_spriteeditor x) reg) \<le> 1"
      by (simp add: registry_inv_def)
    with False show ?thesis by (auto simp: count_tests)
  qed
  from inv have e: "\<forall>s \<in> set (register_with A ?P ?fresh str reg).
      type s = ExecuteCommand \<longrightarrow> params s \<noteq> None"
    by (intro params_ok_register_with) (simp_all add: registry_inv_def new_Shortcut_def)
  show ?thesis
    unfolding registry_inv_def
    using e by (intro conjI allI a b c d)
qed

lemma registry_inv_append_unknown:
  assumes inv: "registry_inv reg"
  shows "registry_inv (reg @ [add_shortcut A ((new_Shortcut ExecuteCommand)
           \<lparr>command := None, params := Some p, keycontext := kc\<rparr>) str])"
  using inv by (simp add: registry_inv_def)

lemma registry_inv_register:
  assumes inv: "registry_inv reg"
  shows "registry_inv (register A E reg call)"
proof (cases call)
  case (RegCommand str name ps kc)
  show ?thesis
  proof (cases "getCommandByName E name")
    case None
    with RegCommand inv show ?thesis
      by (simp add: add_command_register_with registry_inv_append_unknown)
  next
    case (Some c)
    with RegCommand inv show ?thesis
      by (simp add: add_command_register_with registry_inv_register_command)
  qed
next
  case (RegTool str t)
  with inv show ?thesis by (simp add: add_tool_register_with registry_inv_register_tool)
next
  case (RegQuicktool str t)
  with inv show ?thesis by (simp add: add_quicktool_register_with registry_inv_register_quicktool)
next
  case (RegSpriteEditor str n)
  with inv show ?thesis by (simp add: add_spriteeditor_register_with registry_inv_register_spriteeditor)
qed

lemma registry_inv_Nil: "registry_inv []"
  by (simp add: registry_inv_def)

lemma registry_inv_registered: "registry_inv (registered A E calls)"
proof (induction calls rule: rev_induct)
  case Nil
  show ?case by (simp add: registered_def registry_inv_Nil)
next
  case (snoc call calls)
  then show ?case by (simp add: registered_def registry_inv_register)
qed

subsection \<open>Registering the same binding twice\<close>

lemma add_command_fst:
  "getCommandByName E name = Some c \<Longrightarrow>
   fst (add_keyboard_shortcut_to_execute_command A E str name ps kc reg) =
     register_accel A (same_command c ps)
       ((new_Shortcut ExecuteCommand)
          \<lparr>command := Some c, params := Some (case ps of Some p \<Rightarrow> p | None \<Rightarrow> []),
           keycontext := kc\<rparr>) str reg"
  by (simp add: add_keyboard_shortcut_to_execute_command_def register_accel_def
      get_keyboard_shortcut_for_command_def Let_def new_Shortcut_def split: option.splits)

lemma add_tool_fst:
  "fst (add_keyboard_shortcut_to_change_tool A str t reg) =
     register_accel A (for_tool t) ((new_Shortcut ChangeTool)\<lparr>tool := t\<rparr>) str reg"
  by (simp add: add_keyboard_shortcut_to_change_tool_def register_accel_def
      get_keyboard_shortcut_for_tool_def Let_def new_Shortcut_def split: option.splits)

lemma add_quicktool_fst:
  "fst (add_keyboard_shortcut_to_quicktool A str t reg) =
     register_accel A (for_quicktool t) ((new_Shortcut EditorQuicktool)\<lparr>tool := t\<rparr>) str reg"
  by (simp add: add_keyboard_shortcut_to_quicktool_def register_accel_def
      get_keyboard_shortcut_for_quicktool_def Let_def new_Shortcut_def split: option.splits)

lemma add_spriteeditor_fst:
  "fst (add_keyboard_shortcut_to_spriteeditor A str a reg) =
     register_accel A (for_spriteeditor a) ((new_Shortcut SpriteEditor)\<lparr>action := a\<rparr>) str reg"
  by (simp add: add_keyboard_shortcut_to_spriteeditor_def register_accel_def
      get_keyboard_shortcut_for_spriteeditor_def Let_def new_Shortcut_def split: option.splits)

lemma first_index_register_with:
  assumes P_add: "\<And>s str. P (add_shortcut A s str) = P s" and fresh: "P fresh"
  shows "first_index P (register_with A P fresh str reg) =
     Some (case first_index P reg of None \<Rightarrow> length reg | Some j \<Rightarrow> j)"
proof (cases "first_index P reg")
  case None
  then have "\<forall>x \<in> set reg. \<not> P x" by (simp add: first_index_None_iff)
  moreover have "P (add_shortcut A fresh str)" by (simp add: P_add fresh)
  ultimately have "first_index P (reg @ add_shortcut A fresh str # []) = Some (length reg)"
    by (rule first_index_pre)
  with None show ?thesis by (simp add: register_with_def)
next
  case (Some j)
  from first_index_SomeD [OF Some] have j: "j < length reg" "P (reg ! j)" "\<forall>k<j. \<not> P (reg ! k)"
    by simp_all
  have "first_index P (reg[j := add_shortcut A (reg ! j) str]) = Some j"
  proof (rule first_index_SomeI)
    show "j < length (reg[j := add_shortcut A (reg ! j) str])" using j(1) by simp
    show "P (reg[j := add_shortcut A (reg ! j) str] ! j)" using j(1,2) by (simp add: P_add)
    show "\<forall>k<j. \<not> P (reg[j := add_shortcut A (reg ! j) str] ! k)" using j(3) by simp
  qed
  with Some show ?thesis by (simp add: register_with_def)
qed

lemma accel_register_with:
  assumes P_add: "\<And>s str. P (add_shortcut A s str) = P s" and fresh: "P fresh"
  shows "accel_at (register_with A P fresh str reg) (first_index P (register_with A P fresh str reg)) =
     Some (register_accel A P fresh str reg)"
proof (cases "first_index P reg")
  case None
  then show ?thesis
    by (simp add: first_index_register_with [OF P_add fresh] accel_at_def)
       (simp add: register_with_def register_accel_def)
next
  case (Some j)
  from first_index_SomeD [OF Some] have "j < length reg" by simp
  with Some show ?thesis
    by (simp add: first_index_register_with [OF P_add fresh] accel_at_def)
       (simp add: register_with_def register_accel_def)
qed

lemma check_append:
  "check A (xs @ ys) m = (check A xs m \<or> check A ys m)"
  "checkFromAllegroKeyArray A (xs @ ys) ks =
     (checkFromAllegroKeyArray A xs ks \<or> checkFromAllegroKeyArray A ys ks)"
  by (simp_all add: check_def checkFromAllegroKeyArray_def)

lemma register_twice:
  assumes P_add: "\<And>s str. P (add_shortcut A s str) = P s"
    and fresh: "P fresh" "P fresh'"
    and inv: "length (filter P reg) \<le> 1"
  shows "length (register_with A P fresh' s2 (register_with A P fresh s1 reg)) =
           length (register_with A P fresh s1 reg)"
    and "length (filter P (register_with A P fresh' s2 (register_with A P fresh s1 reg))) = 1"
    and "accel_at (register_with A P fresh' s2 (register_with A P fresh s1 reg))
           (first_index P (register_with A P fresh' s2 (register_with A P fresh s1 reg))) =
         Some (register_accel A P fresh' s2 (register_with A P fresh s1 reg))"
    and "register_accel A P fresh' s2 (register_with A P fresh s1 reg) =
           (case first_index P reg of None \<Rightarrow> accel fresh | Some j \<Rightarrow> accel (reg ! j)) @
           parseKeys A s1 @ parseKeys A s2"
proof -
  let ?reg1 = "register_with A P fresh s1 reg"
  have found: "first_index P ?reg1 \<noteq> None"
    by (simp add: first_index_register_with [OF P_add fresh(1)])
  then show "length (register_with A P fresh' s2 ?reg1) = length ?reg1"
    by (simp add: length_register_with)
  have "length (filter P ?reg1) = 1"
  proof (cases "first_index P reg")
    case None
    then have "filter P reg = []" by (rule first_index_filter_None)
    with None show ?thesis by (simp add: count_register_with [OF P_add] fresh)
  next
    case (Some j)
    from first_index_SomeD [OF Some] have "reg ! j \<in> set (filter P reg)" by simp
    then have "filter P reg \<noteq> []" by (metis empty_iff empty_set)
    then have "1 \<le> length (filter P reg)" by (cases "filter P reg") simp_all
    with inv Some show ?thesis by (simp add: count_register_with [OF P_add])
  qed
  with found show "length (filter P (register_with A P fresh' s2 ?reg1)) = 1"
    by (simp add: count_register_with [OF P_add])
  show "accel_at (register_with A P fresh' s2 ?reg1)
           (first_index P (register_with A P fresh' s2 ?reg1)) =
         Some (register_accel A P fresh' s2 ?reg1)"
    by (rule accel_register_with [OF P_add fresh(2)])
  from accel_register_with [OF P_add fresh(1), of s1 reg] found
  show "register_accel A P fresh' s2 ?reg1 =
           (case first_index P reg of None \<Rightarrow> accel fresh | Some j \<Rightarrow> accel (reg ! j)) @
           parseKeys A s1 @ parseKeys A s2"
    by (auto simp: accel_at_def register_accel_def [of A P fresh' s2] register_accel_def [of A P fresh s1])
qed

lemma same_command_params:
  assumes "(case ps of None \<Rightarrow> [] | Some p \<Rightarrow> p) = (case ps' of None \<Rightarrow> [] | Some p \<Rightarrow> p)"
  shows "same_command c ps' = same_command c ps"
  using assms by (intro ext) (auto simp: same_command_def split: option.splits)

lemma idempotent_command:
  assumes inv: "registry_inv reg"
    and cmd: "getCommandByName E name = Some c"
    and eq: "(case ps of None \<Rightarrow> [] | Some p \<Rightarrow> p) = (case ps' of None \<Rightarrow> [] | Some p \<Rightarrow> p)"
  shows "(case add_keyboard_shortcut_to_execute_command A E s1 name ps kc reg of (a1, reg1) \<Rightarrow>
          case add_keyboard_shortcut_to_execute_command A E s2 name ps' kc' reg1 of (a2, reg2) \<Rightarrow>
            length reg2 = length reg1 \<and>
            length (filter (same_command c ps) reg2) = 1 \<and>
            get_accel_to_execute_command E reg2 name ps = Some a2 \<and>
            (check A (parseKeys A s1) m \<or> check A (parseKeys A s2) m \<longrightarrow> check A a2 m))"
proof -
  let ?f = "(new_Shortcut ExecuteCommand)
          \<lparr>command := Some c, params := Some (case ps of Some p \<Rightarrow> p | None \<Rightarrow> []),
           keycontext := kc\<rparr>"
  let ?f' = "(new_Shortcut ExecuteCommand)
          \<lparr>command := Some c, params := Some (case ps' of Some p \<Rightarrow> p | None \<Rightarrow> []),
           keycontext := kc'\<rparr>"
  have P_add: "\<And>s str. same_command c ps (add_shortcut A s str) = same_command c ps s" by simp
  have fresh: "same_command c ps ?f" by (simp split: option.splits)
  have "same_command c ps' ?f'" by (simp split: option.splits)
  then have fresh': "same_command c ps ?f'" by (simp only: same_command_params [OF eq])
  from inv have one: "length (filter (same_command c ps) reg) \<le> 1" by (simp add: registry_inv_def)
  note r = register_twice [OF P_add fresh fresh' one, of s2 s1]
  have snd1: "snd (add_keyboard_shortcut_to_execute_command A E s1 name ps kc reg) =
      register_with A (same_command c ps) ?f s1 reg"
    by (simp add: add_command_register_with cmd)
  have snd2: "snd (add_keyboard_shortcut_to_execute_command A E s2 name ps' kc' reg') =
      register_with A (same_command c ps) ?f' s2 reg'" for reg'
    by (simp add: add_command_register_with cmd same_command_params [OF eq])
  have fst2: "fst (add_keyboard_shortcut_to_execute_command A E s2 name ps' kc' reg') =
      register_accel A (same_command c ps) ?f' s2 reg'" for reg'
    by (simp add: add_command_fst [OF cmd] same_command_params [OF eq])
  have look: "get_accel_to_execute_command E reg' name ps =
      accel_at reg' (first_index (same_command c ps) reg')" for reg'
    by (simp add: get_accel_to_execute_command_def get_keyboard_shortcut_for_command_def cmd)
  show ?thesis
    by (simp only: case_prod_beta snd1 snd2 fst2 look r check_append) simp
qed

lemma idempotent_tool:
  assumes inv: "registry_inv reg"
  shows "(case add_keyboard_shortcut_to_change_tool A s1 t reg of (a1, reg1) \<Rightarrow>
          case add_keyboard_shortcut_to_change_tool A s2 t reg1 of (a2, reg2) \<Rightarrow>
            length reg2 = length reg1 \<and>
            length (filter (for_tool t) reg2) = 1 \<and>
            get_accel_to_change_tool reg2 t = Some a2 \<and>
            (check A (parseKeys A s1) m \<or> check A (parseKeys A s2) m \<longrightarrow> check A a2 m))"
proof -
  let ?f = "(new_Shortcut ChangeTool)\<lparr>tool := t\<rparr>"
  have P_add: "\<And>s str. for_tool t (add_shortcut A s str) = for_tool t s" by simp
  have fresh: "for_tool t ?f" by simp
  from inv have one: "length (filter (for_tool t) reg) \<le> 1" by (simp add: registry_inv_def)
  note r = register_twice [OF P_add fresh fresh one, of s2 s1]
  show ?thesis
    by (simp only: case_prod_beta add_tool_register_with add_tool_fst
        get_accel_to_change_tool_def get_keyboard_shortcut_for_tool_def r check_append)
       simp
qed

lemma idempotent_quicktool:
  assumes inv: "registry_inv reg"
  shows "(case add_keyboard_shortcut_to_quicktool A s1 t reg of (a1, reg1) \<Rightarrow>
          case add_keyboard_shortcut_to_quicktool A s2 t reg1 of (a2, reg2) \<Rightarrow>
            length reg2 = length reg1 \<and>
            length (filter (for_quicktool t) reg2) = 1 \<and>
            accel_at reg2 (get_keyboard_shortcut_for_quicktool reg2 t) = Some a2 \<and>
            (check A (parseKeys A s1) m \<or> check A (parseKeys A s2) m \<longrightarrow> check A a2 m))"
proof -
  let ?f = "(new_Shortcut EditorQuicktool)\<lparr>tool := t\<rparr>"
  have P_add: "\<And>s str. for_quicktool t (add_shortcut A s str) = for_quicktool t s" by simp
  have fresh: "for_quicktool t ?f" by simp
  from inv have one: "length (filter (for_quicktool t) reg) \<le> 1" by (simp add: registry_inv_def)
  note r = register_twice [OF P_add fresh fresh one, of s2 s1]
  show ?thesis
    by (simp only: case_prod_beta add_quicktool_register_with add_quicktool_fst
        get_keyboard_shortcut_for_quicktool_def r check_append)
       simp
qed

lemma idempotent_spriteeditor:
  assumes inv: "registry_inv reg"
  shows "(case add_keyboard_shortcut_to_spriteeditor A s1 a reg of (a1, reg1) \<Rightarrow>
          case add_keyboard_shortcut_to_spriteeditor A s2 a reg1 of (a2, reg2) \<Rightarrow>
            length reg2 = length reg1 \<and>
            length (filter (for_spriteeditor a) reg2) = 1 \<and>
            accel_at reg2 (get_keyboard_shortcut_for_spriteeditor reg2 a) = Some a2 \<and>
            (check A (parseKeys A s1) m \<or> check A (parseKeys A s2) m \<longrightarrow> check A a2 m))"
proof -
  let ?f = "(new_Shortcut SpriteEditor)\<lparr>action := a\<rparr>"
  have P_add: "\<And>s str. for_spriteeditor a (add_shortcut A s str) = for_spriteeditor a s" by simp
  have fresh: "for_spriteeditor a ?f" by simp
  from inv have one: "length (filter (for_spriteeditor a) reg) \<le> 1" by (simp add: registry_inv_def)
  note r = register_twice [OF P_add fresh fresh one, of s2 s1]
  show ?thesis
    by (simp only: case_prod_beta add_spriteeditor_register_with add_spriteeditor_fst
        get_keyboard_shortcut_for_spriteeditor_def r check_append)
       simp
qed

subsection \<open>Every binding of the registry comes from a call\<close>

lemma called_for_add_shortcut [simp]:
  "called_for E call (add_shortcut A s str) = called_for E call s"
  by (cases call) simp_all

lemma called_for_register_with:
  assumes old: "\<forall>s \<in> set reg. \<exists>c \<in> set calls. called_for E c s"
    and fresh: "called_for E call fresh"
  shows "\<forall>s \<in> set (register_with A P fresh str reg). \<exists>c \<in> set (calls @ [call]). called_for E c s"
proof
  fix s assume "s \<in> set (register_with A P fresh str reg)"
  from set_register_with [OF this] consider "s \<in> set reg"
    | y where "y \<in> set reg" "s = add_shortcut A y str"
    | "s = add_shortcut A fresh str"
    by blast
  then show "\<exists>c \<in> set (calls @ [call]). called_for E c s"
  proof cases
    case 1
    with old obtain c where "c \<in> set calls" "called_for E c s" by blast
    then show ?thesis by auto
  next
    case 2
    with old obtain c where "c \<in> set calls" "called_for E c y" by blast
    with 2 show ?thesis by auto
  next
    case 3
    with fresh show ?thesis by auto
  qed
qed

lemma called_for_register:
  assumes old: "\<forall>s \<in> set reg. \<exists>c \<in> set calls. called_for E c s"
  shows "\<forall>s \<in> set (register A E reg call). \<exists>c \<in> set (calls @ [call]). called_for E c s"
proof (cases call)
  case (RegCommand str name ps kc)
  show ?thesis
  proof (cases "getCommandByName E name")
    case None
    have "\<forall>s \<in> set (register_with A (\<lambda>s. False)
        ((new_Shortcut ExecuteCommand)\<lparr>command := None,
           params := Some (case ps of Some p \<Rightarrow> p | None \<Rightarrow> []), keycontext := kc\<rparr>) str reg).
        \<exists>c \<in> set (calls @ [call]). called_for E c s"
      by (rule called_for_register_with [OF old]) (simp add: RegCommand None new_Shortcut_def)
    moreover have "first_index (\<lambda>s. False) reg = None" by (simp add: first_index_None_iff)
    ultimately show ?thesis
      by (simp add: RegCommand None add_command_register_with register_with_def)
  next
    case (Some c)
    have "\<forall>s \<in> set (register_with A (same_command c ps)
        ((new_Shortcut ExecuteCommand)\<lparr>command := Some c,
           params := Some (case ps of Some p \<Rightarrow> p | None \<Rightarrow> []), keycontext := kc\<rparr>) str reg).
        \<exists>c \<in> set (calls @ [call]). called_for E c s"
      by (rule called_for_register_with [OF old]) (simp add: RegCommand Some new_Shortcut_def)
    then show ?thesis by (simp add: RegCommand Some add_command_register_with)
  qed
next
  case (RegTool str t)
  have "\<forall>s \<in> set (register_with A (for_tool t) ((new_Shortcut ChangeTool)\<lparr>tool := t\<rparr>) str reg).
        \<exists>c \<in> set (calls @ [call]). called_for E c s"
    by (rule called_for_register_with [OF old]) (simp add: RegTool new_Shortcut_def)
  then show ?thesis by (simp add: RegTool add_tool_register_with)
next
  case (RegQuicktool str t)
  have "\<forall>s \<in> set (register_with A (for_quicktool t) ((new_Shortcut EditorQuicktool)\<lparr>tool := t\<rparr>) str reg).
        \<exists>c \<in> set (calls @ [call]). called_for E c s"
    by (rule called_for_register_with [OF old]) (simp add: RegQuicktool new_Shortcut_def)
  then show ?thesis by (simp add: RegQuicktool add_quicktool_register_with)
next
  case (RegSpriteEditor str a)
  have "\<forall>s \<in> set (register_with A (for_spriteeditor a) ((new_Shortcut SpriteEditor)\<lparr>action := a\<rparr>) str reg).
        \<exists>c \<in> set (calls @ [call]). called_for E c s"
    by (rule called_for_register_with [OF old]) (simp add: RegSpriteEditor new_Shortcut_def)
  then show ?thesis by (simp add: RegSpriteEditor add_spriteeditor_register_with)
qed

lemma called_for_registered:
  "\<forall>s \<in> set (registered A E calls). \<exists>c \<in> set calls. called_for E c s"
proof (induction calls rule: rev_induct)
  case Nil
  show ?case by (simp add: registered_def)
next
  case (snoc call calls)
  from called_for_register [OF snoc.IH [unfolded registered_def]]
  show ?case by (simp add: registered_def)
qed

lemma no_tool_binding:
  assumes "\<forall>str. RegTool str t \<notin> set calls" and "s \<in> set (registered A E calls)"
  shows "\<not> for_tool t s"
proof
  assume f: "for_tool t s"
  from called_for_registered assms(2) obtain c where c: "c \<in> set calls" "called_for E c s" by blast
  from f c(2) obtain str where "c = RegTool str t" by (cases c) (auto simp: for_tool_def)
  with c(1) assms(1) show False by blast
qed

lemma no_quicktool_binding:
  assumes "\<forall>str. RegQuicktool str t \<notin> set calls" and "s \<in> set (registered A E calls)"
  shows "\<not> for_quicktool t s"
proof
  assume f: "for_quicktool t s"
  from called_for_registered assms(2) obtain c where c: "c \<in> set calls" "called_for E c s" by blast
  from f c(2) obtain str where "c = RegQuicktool str t" by (cases c) (auto simp: for_quicktool_def)
  with c(1) assms(1) show False by blast
qed

lemma no_spriteeditor_binding:
  assumes "\<forall>str. RegSpriteEditor str a \<notin> set calls" and "s \<in> set (registered A E calls)"
  shows "\<not> for_spriteeditor a s"
proof
  assume f: "for_spriteeditor a s"
  from called_for_registered assms(2) obtain c where c: "c \<in> set calls" "called_for E c s" by blast
  from f c(2) obtain str where "c = RegSpriteEditor str a" by (cases c) (auto simp: for_spriteeditor_def)
  with c(1) assms(1) show False by blast
qed

lemma no_command_binding:
  assumes "\<forall>str n q kc. RegCommand str n q kc \<in> set calls \<longrightarrow> getCommandByName E n \<noteq> Some c"
    and "s \<in> set (registered A E calls)"
  shows "\<not> (type s = ExecuteCommand \<and> command s = Some c)"
proof
  assume f: "type s = ExecuteCommand \<and> command s = Some c"
  from called_for_registered assms(2) obtain k where k: "k \<in> set calls" "called_for E k s" by blast
  from f k(2) obtain str n q kc where "k = RegCommand str n q kc" "getCommandByName E n = Some c"
    by (cases k) auto
  with k(1) assms(1) show False by blast
qed

subsection \<open>The scans of the dispatch\<close>

lemma shortcut_scan_hit:
  "\<forall>x \<in> set pre. \<not> is_pressed A E x msg \<Longrightarrow> is_pressed A E s msg \<Longrightarrow>
   shortcut_scan A E reg msg (pre @ s # post) = on_pressed A E reg msg s"
  by (induction pre) simp_all

lemma shortcut_scan_none:
  "\<forall>x \<in> set xs. \<not> is_pressed A E x msg \<Longrightarrow>
   shortcut_scan A E reg msg xs = ([], ManagerOnProcessMessage)"
  by (induction xs) simp_all

lemma next_possible_index:
  "next_possible cur all k rest =
     map_option (\<lambda>i. all ! ((k + i + 1) mod length all)) (first_index (\<lambda>p. p = cur) rest)"
  by (induction rest arbitrary: k) (simp_all add: option.map_comp comp_def)

lemma execute_loop_walk:
  "execute_loop E s ws =
     (if \<exists>i<length ws. isDesktop E (ws ! i) \<and> ws ! i = getMainWindow E \<and>
            (\<forall>j\<le>i. \<not> isForeground E (ws ! j))
      then ([UIContext_executeCommand (command s) (params s)], ReturnTrue)
      else ([], ManagerOnProcessMessage))"
proof (induction ws)
  case Nil
  show ?case by simp
next
  case (Cons w ws)
  let ?ok = "\<lambda>ws. \<exists>i<length ws. isDesktop E (ws ! i) \<and> ws ! i = getMainWindow E \<and>
            (\<forall>j\<le>i. \<not> isForeground E (ws ! j))"
  show ?case
  proof (cases "isForeground E w")
    case True
    then have "\<not> ?ok (w # ws)" by (metis nth_Cons_0 zero_le)
    moreover from True have "execute_loop E s (w # ws) = ([], ManagerOnProcessMessage)" by simp
    ultimately show ?thesis by (simp only: if_False)
  next
    case nf: False
    show ?thesis
    proof (cases "isDesktop E w \<and> w = getMainWindow E")
      case True
      with nf have "?ok (w # ws)" by (intro exI [of _ 0]) auto
      moreover from True nf have "execute_loop E s (w # ws) =
          ([UIContext_executeCommand (command s) (params s)], ReturnTrue)" by auto
      ultimately show ?thesis by (simp only: if_True)
    next
      case False
      have "?ok (w # ws) = ?ok ws"
      proof
        assume "?ok (w # ws)"
        then obtain i where i: "i < length (w # ws)" "isDesktop E ((w # ws) ! i)"
          "(w # ws) ! i = getMainWindow E" "\<forall>j\<le>i. \<not> isForeground E ((w # ws) ! j)" by blast
        with False obtain k where k: "i = Suc k" by (cases i) auto
        have "\<forall>j\<le>k. \<not> isForeground E (ws ! j)"
        proof (intro allI impI)
          fix j assume "j \<le> k"
          with k have "Suc j \<le> i" by simp
          with i(4) have "\<not> isForeground E ((w # ws) ! Suc j)" by blast
          then show "\<not> isForeground E (ws ! j)" by simp
        qed
        with i k show "?ok ws" by (intro exI [of _ k]) simp
      next
        assume "?ok ws"
        then obtain k where k: "k < length ws" "isDesktop E (ws ! k)"
          "ws ! k = getMainWindow E" "\<forall>j\<le>k. \<not> isForeground E (ws ! j)" by blast
        have "\<forall>j\<le>Suc k. \<not> isForeground E ((w # ws) ! j)"
        proof (intro allI impI)
          fix j assume j: "j \<le> Suc k"
          show "\<not> isForeground E ((w # ws) ! j)"
          proof (cases j)
            case 0
            with nf show ?thesis by simp
          next
            case (Suc m)
            with j k(4) show ?thesis by simp
          qed
        qed
        with k show "?ok (w # ws)" by (intro exI [of _ "Suc k"]) simp
      qed
      moreover from False nf have "execute_loop E s (w # ws) = execute_loop E s ws" by auto
      ultimately show ?thesis using Cons.IH by (simp only:)
    qed
  qed
qed

lemma walk_execute_loop:
  "(\<exists>i<length ws. isDesktop E (ws ! i) \<and> ws ! i = getMainWindow E \<and>
       (\<forall>j\<le>i. \<not> isForeground E (ws ! j))) =
   (snd (execute_loop E s ws) = ReturnTrue)"
  by (simp only: execute_loop_walk [of E s ws] if_distrib [of snd] snd_conv
      if_distrib [of "\<lambda>r. r = ReturnTrue"] returned.distinct simp_thms if_True if_False if_bool_eq_conj)

lemma foreground_on_top_no_walk:
  assumes "foreground_on_top E"
  shows "\<not> (\<exists>i<length (getChildren E). isDesktop E (getChildren E ! i) \<and>
            getChildren E ! i = getMainWindow E \<and>
            (\<forall>j\<le>i. \<not> isForeground E (getChildren E ! j)))"
proof (cases "getChildren E")
  case Nil
  then show ?thesis by simp
next
  case (Cons w ws)
  with assms have "isForeground E (getChildren E ! 0)"
    by (simp add: foreground_on_top_def getTopWindow_def)
  then show ?thesis by (metis zero_le)
qed

lemma first_other_visible_find:
  "first_other_visible E cur ps = find (\<lambda>p. p \<noteq> cur \<and> isToolVisible E p) ps"
  by (induction ps) simp_all

lemma next_possible_first:
  assumes "i < length ps" "ps ! i = cur" "\<forall>j<i. ps ! j \<noteq> cur"
  shows "next_possible cur ps 0 ps = Some (ps ! ((i + 1) mod length ps))"
proof -
  from assms have "first_index (\<lambda>p. p = cur) ps = Some i"
    by (intro first_index_SomeI) simp_all
  then show ?thesis by (simp add: next_possible_index)
qed

lemma next_possible_None:
  "cur \<notin> set ps \<Longrightarrow> next_possible cur all k ps = None"
  by (induction ps arbitrary: k) auto

lemma next_possible_mem:
  "next_possible cur all k rest = Some p \<Longrightarrow> all \<noteq> [] \<Longrightarrow> p \<in> set all"
  by (induction rest arbitrary: k) (auto split: if_splits)

lemma change_tool_hit:
  assumes "\<not> foreground_on_top E"
    and "\<forall>x \<in> set pre. \<not> is_pressed A E x msg"
    and "is_pressed A E s msg"
    and "type s = ChangeTool"
  shows "onProcessMessage_KeyDown A E (pre @ s # post) msg =
     ([MenuBar_cancelMenuLoop,
       ToolBar_selectTool (select_this_tool E s (possibles A E (pre @ s # post) msg))],
      ReturnTrue)"
  using assms(1,4)
  by (simp add: onProcessMessage_KeyDown_def shortcut_scan_hit [OF assms(2,3)] on_pressed_def)

lemma possibles_pressed_tools:
  assumes inv: "registry_inv reg"
  shows "possibles A E reg msg =
     filter (\<lambda>t. \<exists>b \<in> set reg. type b = ChangeTool \<and> tool b = Some t \<and> is_pressed A E b msg)
       (toolbox E)"
proof -
  have "(case get_keyboard_shortcut_for_tool reg (Some t) of
           Some i \<Rightarrow> is_pressed A E (reg ! i) msg | None \<Rightarrow> False) =
        (\<exists>b \<in> set reg. type b = ChangeTool \<and> tool b = Some t \<and> is_pressed A E b msg)" for t
  proof (cases "first_index (for_tool (Some t)) reg")
    case None
    then have "\<forall>b \<in> set reg. \<not> for_tool (Some t) b" by (simp add: first_index_None_iff)
    then have "\<not> (\<exists>b \<in> set reg. type b = ChangeTool \<and> tool b = Some t \<and> is_pressed A E b msg)"
      by (auto simp: for_tool_def)
    with None show ?thesis by (simp add: get_keyboard_shortcut_for_tool_def)
  next
    case (Some i)
    from first_index_mem [OF Some] have i: "reg ! i \<in> set reg" "for_tool (Some t) (reg ! i)"
      by simp_all
    from inv have one: "length (filter (for_tool (Some t)) reg) \<le> 1"
      by (simp add: registry_inv_def)
    have "(\<exists>b \<in> set reg. type b = ChangeTool \<and> tool b = Some t \<and> is_pressed A E b msg) =
        is_pressed A E (reg ! i) msg"
    proof
      assume "\<exists>b \<in> set reg. type b = ChangeTool \<and> tool b = Some t \<and> is_pressed A E b msg"
      then obtain b where b: "b \<in> set reg" "for_tool (Some t) b" "is_pressed A E b msg"
        by (auto simp: for_tool_def)
      from unique_first [OF one Some b(1,2)] b(3) show "is_pressed A E (reg ! i) msg" by simp
    next
      assume "is_pressed A E (reg ! i) msg"
      with i show "\<exists>b \<in> set reg. type b = ChangeTool \<and> tool b = Some t \<and> is_pressed A E b msg"
        unfolding for_tool_def by blast
    qed
    with Some show ?thesis by (simp add: get_keyboard_shortcut_for_tool_def)
  qed
  then show ?thesis by (simp add: possibles_def)
qed

lemma quicktool_loop_find:
  "quicktool_loop A E reg ts =
     find (\<lambda>t. \<exists>i. get_keyboard_shortcut_for_quicktool reg (Some t) = Some i \<and>
                   is_pressed_from_key_array A E (reg ! i)) ts"
  by (induction ts) (simp_all split: option.splits)

lemma get_command_from_key_message_SomeD:
  "get_command_from_key_message A E reg msg = Some (c, q) \<Longrightarrow>
     \<exists>s \<in> set reg. type s = ExecuteCommand \<and> command s = c \<and> params s = q"
  by (induction reg) (auto split: if_splits)

lemma get_command_from_key_message_None:
  "\<forall>s \<in> set reg. \<not> is_pressed A E s msg \<Longrightarrow> get_command_from_key_message A E reg msg = None"
  by (induction reg) simp_all

lemma execute_loop_effects:
  "x \<in> set (fst (execute_loop E s ws)) \<Longrightarrow> x = UIContext_executeCommand (command s) (params s)"
  by (induction ws) (auto split: if_splits)

lemma select_this_tool_cases:
  "select_this_tool E s ps = tool s \<or> (\<exists>p \<in> set ps. select_this_tool E s ps = Some p)"
proof (cases "2 \<le> length ps")
  case False
  then show ?thesis by (simp add: select_this_tool_def)
next
  case True
  then have ne: "ps \<noteq> []" by auto
  show ?thesis
  proof (cases "first_other_visible E (getCurrentTool E) ps")
    case (Some p)
    then have "p \<in> set ps" by (auto simp: first_other_visible_find find_Some_iff)
    with Some True show ?thesis by (simp add: select_this_tool_def)
  next
    case None
    show ?thesis
    proof (cases "next_possible (getCurrentTool E) ps 0 ps")
      case (Some p)
      from next_possible_mem [OF Some ne] Some None True show ?thesis
        by (simp add: select_this_tool_def)
    next
      case N2: None
      with None True show ?thesis by (simp add: select_this_tool_def)
    qed
  qed
qed

lemma possibles_bound:
  "p \<in> set (possibles A E reg msg) \<Longrightarrow> \<exists>x \<in> set reg. for_tool (Some p) x"
  by (auto simp: possibles_def get_keyboard_shortcut_for_tool_def split: option.splits
      dest: first_index_mem)

lemma on_pressed_select:
  assumes "ToolBar_selectTool t \<in> set (fst (on_pressed A E reg msg s))" and "s \<in> set reg"
  shows "\<exists>x \<in> set reg. for_tool t x"
proof (cases "type s")
  case ChangeTool
  with assms(1) have t: "t = select_this_tool E s (possibles A E reg msg)"
    by (simp add: on_pressed_def)
  from select_this_tool_cases [of E s "possibles A E reg msg"] show ?thesis
  proof
    assume "select_this_tool E s (possibles A E reg msg) = tool s"
    with t ChangeTool have "for_tool t s" by (simp add: for_tool_def)
    with assms(2) show ?thesis by blast
  next
    assume "\<exists>p \<in> set (possibles A E reg msg). select_this_tool E s (possibles A E reg msg) = Some p"
    with t obtain p where "p \<in> set (possibles A E reg msg)" "t = Some p" by auto
    with possibles_bound show ?thesis by blast
  qed
next
  case ExecuteCommand
  obtain effects r where e: "execute_loop E s (getChildren E) = (effects, r)"
    by (cases "execute_loop E s (getChildren E)")
  with assms(1) ExecuteCommand
  have "ToolBar_selectTool t \<in> set (fst (execute_loop E s (getChildren E)))"
    by (simp add: on_pressed_def)
  from execute_loop_effects [OF this] show ?thesis by simp
next
  case EditorQuicktool
  with assms(1) show ?thesis by (simp add: on_pressed_def)
next
  case SpriteEditor
  with assms(1) show ?thesis by (simp add: on_pressed_def)
qed

lemma on_pressed_execute:
  assumes "UIContext_executeCommand c q \<in> set (fst (on_pressed A E reg msg s))"
  shows "type s = ExecuteCommand \<and> command s = c \<and> params s = q"
proof (cases "type s")
  case ExecuteCommand
  obtain effects r where e: "execute_loop E s (getChildren E) = (effects, r)"
    by (cases "execute_loop E s (getChildren E)")
  with assms ExecuteCommand have "UIContext_executeCommand c q \<in> set (fst (execute_loop E s (getChildren E)))"
    by (simp add: on_pressed_def)
  from execute_loop_effects [OF this] ExecuteCommand show ?thesis by simp
qed (use assms in \<open>simp_all add: on_pressed_def\<close>)

lemma shortcut_scan_select:
  "ToolBar_selectTool t \<in> set (fst (shortcut_scan A E reg msg xs)) \<Longrightarrow> set xs \<subseteq> set reg \<Longrightarrow>
     \<exists>x \<in> set reg. for_tool t x"
proof (induction xs)
  case Nil
  then show ?case by simp
next
  case (Cons s xs)
  show ?case
  proof (cases "is_pressed A E s msg")
    case True
    with Cons.prems have "ToolBar_selectTool t \<in> set (fst (on_pressed A E reg msg s))" "s \<in> set reg"
      by simp_all
    then show ?thesis by (rule on_pressed_select)
  next
    case False
    with Cons show ?thesis by simp
  qed
qed

lemma shortcut_scan_execute:
  "UIContext_executeCommand c q \<in> set (fst (shortcut_scan A E reg msg xs)) \<Longrightarrow>
     \<exists>s \<in> set xs. type s = ExecuteCommand \<and> command s = c \<and> params s = q"
proof (induction xs)
  case Nil
  then show ?case by simp
next
  case (Cons s xs)
  show ?case
  proof (cases "is_pressed A E s msg")
    case True
    with Cons.prems have "UIContext_executeCommand c q \<in> set (fst (on_pressed A E reg msg s))"
      by simp
    from on_pressed_execute [OF this] show ?thesis by simp
  next
    case False
    with Cons show ?thesis by simp
  qed
qed

lemma key_down_select:
  "ToolBar_selectTool t \<in> set (fst (onProcessMessage_KeyDown A E reg msg)) \<Longrightarrow>
     \<exists>x \<in> set reg. for_tool t x"
  by (cases "foreground_on_top E")
     (auto simp: onProcessMessage_KeyDown_def dest: shortcut_scan_select)

lemma key_down_execute:
  "UIContext_executeCommand c q \<in> set (fst (onProcessMessage_KeyDown A E reg msg)) \<Longrightarrow>
     \<exists>s \<in> set reg. type s = ExecuteCommand \<and> command s = c \<and> params s = q"
  by (cases "foreground_on_top E")
     (auto simp: onProcessMessage_KeyDown_def dest: shortcut_scan_execute)

lemma quicktool_bound:
  "get_selected_quicktool A E reg cur = Some u \<Longrightarrow> \<exists>x \<in> set reg. for_quicktool (Some u) x"
  by (auto simp: get_selected_quicktool_def quicktool_loop_find find_Some_iff
      get_keyboard_shortcut_for_quicktool_def split: if_splits dest: first_index_mem)

subsection \<open>The concrete state, evaluated\<close>

lemmas registration_defs =
  registered_def add_keyboard_shortcut_to_execute_command_def
  add_keyboard_shortcut_to_change_tool_def add_keyboard_shortcut_to_quicktool_def
  add_keyboard_shortcut_to_spriteeditor_def get_keyboard_shortcut_for_command_def
  get_keyboard_shortcut_for_tool_def get_keyboard_shortcut_for_quicktool_def
  get_keyboard_shortcut_for_spriteeditor_def same_command_def for_tool_def for_quicktool_def
  for_spriteeditor_def new_Shortcut_def add_shortcut_def addKeysFromString_def Let_def

lemma ex_parse [simp]:
  "parseKeys ex_api ''Ctrl+N'' = [\<lparr>modifiers = 2, keycode = 14, character = 0\<rparr>]"
  "parseKeys ex_api ''M'' = [\<lparr>modifiers = 0, keycode = 13, character = 0\<rparr>]"
  "parseKeys ex_api ''Ctrl'' = [\<lparr>modifiers = 2, keycode = 0, character = 0\<rparr>]"
  by (simp_all add: ex_api_def)

lemma ex_check [simp]:
  "check ex_api acc msg = list_ex (\<lambda>c. modifiers c = keyModifiers msg \<and> keycode c = scancode msg) acc"
  "checkFromAllegroKeyArray ex_api acc ks = list_ex (\<lambda>c. keycode c \<in> set ks) acc"
  by (simp_all add: check_def checkFromAllegroKeyArray_def ex_api_def)

lemma ex_env_fields [simp]:
  "getCommandByName ex_env name = (if name = ''NewFile'' then Some 21 else None)"
  "activeDocument ex_env = None"
  "getCurrentTool ex_env = 11"
  "inkIsSelection ex_env t = (t = 13)"
  "toolbox ex_env = [11, 12, 13, 14]"
  "isToolVisible ex_env t = (t \<noteq> 12 \<and> t \<noteq> 14)"
  "getChildren ex_env = [30]"
  "isForeground ex_env w = (w = 37)"
  "isDesktop ex_env w = (w = 30)"
  "getMainWindow ex_env = 30"
  "key ex_env = []"
  by (simp_all add: ex_env_def)

lemma ex_contexts [simp]:
  "get_current_keycontext ex_env = Normal"
  "get_current_keycontext ex_env_selection = Selection"
  by (simp_all add: get_current_keycontext_def ex_env_selection_def)

lemma ex_tool_fields [simp]:
  "type (ex_tool str t) = ChangeTool" "tool (ex_tool str t) = Some t"
  by (simp_all add: ex_tool_def)

lemma ex_command_fields [simp]:
  "accel (ex_command str c kc) = parseKeys ex_api str"
  "type (ex_command str c kc) = ExecuteCommand"
  "command (ex_command str c kc) = Some c"
  "keycontext (ex_command str c kc) = kc"
  "params (ex_command str c kc) = Some []"
  by (simp_all add: ex_command_def)

lemma ex_other_fields [simp]:
  "type (ex_quicktool str t) = EditorQuicktool"
  "type (ex_spriteeditor str a) = SpriteEditor"
  "accel (ex_quicktool str t) = parseKeys ex_api str"
  "accel (ex_spriteeditor str a) = parseKeys ex_api str"
  "keycontext (ex_quicktool str t) = Any"
  "keycontext (ex_spriteeditor str a) = Any"
  by (simp_all add: ex_quicktool_def ex_spriteeditor_def)

lemma ex_registered_tools:
  "registered ex_api ex_env [RegTool ''M'' (Some 11), RegTool ''M'' (Some 12), RegTool ''M'' (Some 13)] =
     [ex_tool ''M'' 11, ex_tool ''M'' 12, ex_tool ''M'' 13]"
  "registered ex_api ex_env [RegTool ''M'' (Some 11), RegTool ''M'' (Some 12)] =
     [ex_tool ''M'' 11, ex_tool ''M'' 12]"
  "registered ex_api ex_env [RegTool ''M'' (Some 12), RegTool ''M'' (Some 14)] =
     [ex_tool ''M'' 12, ex_tool ''M'' 14]"
  "registered ex_api ex_env [RegTool ''M'' (Some 13)] = [ex_tool ''M'' 13]"
  by (simp_all add: registration_defs ex_tool_def)

lemma ex_registered_tool11:
  "registered ex_api ex_env [RegTool ''M'' (Some 11)] = [ex_tool ''M'' 11]"
  by (simp add: registration_defs ex_tool_def)

lemma ex_registered_quick:
  "registered ex_api ex_env
     [RegSpriteEditor ''Ctrl'' SPRITEDITOR_ACTION_COPYSELECTION, RegQuicktool ''M'' (Some 12)] =
   [ex_spriteeditor ''Ctrl'' ''CopySelection'', ex_quicktool ''M'' 12]"
  by (simp add: registration_defs ex_spriteeditor_def ex_quicktool_def
      SPRITEDITOR_ACTION_COPYSELECTION_def)

lemma ex_registered_command:
  "registered ex_api ex_env [RegCommand ''Ctrl+N'' ''NewFile'' None Any] =
     [ex_command ''Ctrl+N'' 21 Any]"
  "registered ex_api ex_env
     [RegQuicktool ''Ctrl+N'' (Some 12), RegCommand ''Ctrl+N'' ''NewFile'' None Any] =
     [ex_quicktool ''Ctrl+N'' 12, ex_command ''Ctrl+N'' 21 Any]"
  "registered ex_api ex_env
     [RegSpriteEditor ''Ctrl+N'' ''SnapToGrid'', RegCommand ''Ctrl+N'' ''NewFile'' None Any] =
     [ex_spriteeditor ''Ctrl+N'' ''SnapToGrid'', ex_command ''Ctrl+N'' 21 Any]"
  by (simp_all add: registration_defs ex_command_def ex_quicktool_def ex_spriteeditor_def)

lemma ex_pressed_M [simp]:
  "is_pressed ex_api E (ex_tool ''M'' t) msg_M"
  by (simp add: is_pressed_def ex_tool_def msg_M_def)

lemma ex_not_pressed_CtrlN [simp]:
  "\<not> is_pressed ex_api E (ex_tool ''M'' t) msg_CtrlN"
  by (simp add: is_pressed_def ex_tool_def msg_CtrlN_def)

lemma ex_pressed_CtrlN [simp]:
  "is_pressed ex_api E (ex_command ''Ctrl+N'' c Any) msg_CtrlN"
  "is_pressed ex_api E (ex_quicktool ''Ctrl+N'' t) msg_CtrlN"
  "is_pressed ex_api E (ex_spriteeditor ''Ctrl+N'' a) msg_CtrlN"
  by (simp_all add: is_pressed_def ex_command_def ex_quicktool_def ex_spriteeditor_def msg_CtrlN_def)

lemma ex_not_on_top [simp]: "\<not> foreground_on_top ex_env"
  by (simp add: foreground_on_top_def getTopWindow_def)

lemma ex_possibles:
  "possibles ex_api ex_env [ex_tool ''M'' 11, ex_tool ''M'' 12, ex_tool ''M'' 13] msg_M = [11, 12, 13]"
  "possibles ex_api ex_env [ex_tool ''M'' 11, ex_tool ''M'' 12] msg_M = [11, 12]"
  "possibles ex_api ex_env [ex_tool ''M'' 12, ex_tool ''M'' 14] msg_M = [12, 14]"
  "possibles ex_api ex_env [ex_tool ''M'' 13] msg_M = [13]"
  by (simp_all add: possibles_def get_keyboard_shortcut_for_tool_def for_tool_def)

lemma ex_pressed_tools:
  "filter (\<lambda>t. \<exists>b \<in> set [ex_tool ''M'' 11, ex_tool ''M'' 12, ex_tool ''M'' 13].
        type b = ChangeTool \<and> tool b = Some t \<and> is_pressed ex_api ex_env b msg_M)
     (toolbox ex_env) = [11, 12, 13]"
  "filter (\<lambda>t. \<exists>b \<in> set [ex_tool ''M'' 11, ex_tool ''M'' 12].
        type b = ChangeTool \<and> tool b = Some t \<and> is_pressed ex_api ex_env b msg_M)
     (toolbox ex_env) = [11, 12]"
  by simp_all

lemma ex_registry_inv:
  "registry_inv [ex_tool ''M'' 11, ex_tool ''M'' 12, ex_tool ''M'' 13]"
  "registry_inv [ex_tool ''M'' 11, ex_tool ''M'' 12]"
  "registry_inv [ex_tool ''M'' 13]"
  using registry_inv_registered [of ex_api ex_env
      "[RegTool ''M'' (Some 11), RegTool ''M'' (Some 12), RegTool ''M'' (Some 13)]"]
    registry_inv_registered [of ex_api ex_env "[RegTool ''M'' (Some 11), RegTool ''M'' (Some 12)]"]
    registry_inv_registered [of ex_api ex_env "[RegTool ''M'' (Some 13)]"]
  by (simp_all add: ex_registered_tools)

lemma ex_no_pre: "\<forall>x \<in> set []. \<not> is_pressed ex_api ex_env x msg"
  by simp

lemma ex_no_pre_any: "\<forall>x \<in> set []. \<not> is_pressed ex_api E x msg"
  by simp

lemma ex_quick_lookups:
  "get_keyboard_shortcut_for_spriteeditor
     [ex_spriteeditor ''Ctrl'' ''CopySelection'', ex_quicktool ''M'' 12]
     SPRITEDITOR_ACTION_COPYSELECTION = Some 0"
  "get_keyboard_shortcut_for_quicktool
     [ex_spriteeditor ''Ctrl'' ''CopySelection'', ex_quicktool ''M'' 12] (Some t) =
     (if t = 12 then Some (Suc 0) else None)"
  by (simp_all add: get_keyboard_shortcut_for_spriteeditor_def
     get_keyboard_shortcut_for_quicktool_def for_spriteeditor_def for_quicktool_def
     ex_spriteeditor_def ex_quicktool_def SPRITEDITOR_ACTION_COPYSELECTION_def)

subsection \<open>The claims\<close>

text \<open>
  C1. Tie-break among tool bindings. Let the key-down reach the \<^verbatim>\<open>ChangeTool\<close> case: no
  foreground window other than the main window is on top, and the first pressed binding
  in registration order is a tool binding \<open>s\<close>. Let the candidates \<open>P\<close> be the tools of
  the toolbox, in toolbox order, for which the registry holds a tool binding that the key
  message presses; the registry satisfies its invariant. The handler cancels the menu
  loop, selects one tool \<open>sel\<close> and returns \<^verbatim>\<open>true\<close>, where: with two or more candidates,
  \<open>sel\<close> is the first candidate that is visible and not the current tool; if there is no
  such candidate and the current tool is among the candidates, at position \<open>i\<close>, \<open>sel\<close> is
  the candidate at position \<open>(i + 1) mod length P\<close>; and when all pressed tool bindings
  are for one tool \<open>u\<close>, \<open>sel\<close> is \<open>u\<close>.
\<close>

theorem C1_tool_tiebreak:
  assumes top: "\<not> foreground_on_top E"
    and pre: "\<forall>x \<in> set pre. \<not> is_pressed A E x msg"
    and hit: "is_pressed A E s msg"
    and ty: "type s = ChangeTool"
    and inv: "registry_inv (pre @ s # post)"
    and P: "P = filter
        (\<lambda>t. \<exists>b \<in> set (pre @ s # post).
                type b = ChangeTool \<and> tool b = Some t \<and> is_pressed A E b msg)
        (toolbox E)"
    and cur: "cur = getCurrentTool E"
  shows "\<exists>sel. onProcessMessage_KeyDown A E (pre @ s # post) msg =
           ([MenuBar_cancelMenuLoop, ToolBar_selectTool sel], ReturnTrue) \<and>
     (2 \<le> length P \<longrightarrow>
        (\<forall>p. find (\<lambda>p. p \<noteq> cur \<and> isToolVisible E p) P = Some p \<longrightarrow> sel = Some p) \<and>
        (find (\<lambda>p. p \<noteq> cur \<and> isToolVisible E p) P = None \<longrightarrow>
           (\<forall>i<length P. P ! i = cur \<and> (\<forall>j<i. P ! j \<noteq> cur) \<longrightarrow>
              sel = Some (P ! ((i + 1) mod length P))))) \<and>
     ((\<forall>b \<in> set (pre @ s # post).
          type b = ChangeTool \<and> is_pressed A E b msg \<longrightarrow> tool b = u) \<longrightarrow>
        sel = u)"
proof (intro exI conjI impI allI)
  have PP: "P = possibles A E (pre @ s # post) msg"
    by (simp only: P possibles_pressed_tools [OF inv])
  show "onProcessMessage_KeyDown A E (pre @ s # post) msg =
      ([MenuBar_cancelMenuLoop, ToolBar_selectTool (select_this_tool E s P)], ReturnTrue)"
    unfolding PP by (rule change_tool_hit [OF top pre hit ty])
next
  fix p assume "2 \<le> length P" "find (\<lambda>p. p \<noteq> cur \<and> isToolVisible E p) P = Some p"
  then show "select_this_tool E s P = Some p"
    by (simp add: select_this_tool_def first_other_visible_find cur)
next
  fix i
  assume two: "2 \<le> length P" and none: "find (\<lambda>p. p \<noteq> cur \<and> isToolVisible E p) P = None"
    and i: "i < length P" "P ! i = cur \<and> (\<forall>j<i. P ! j \<noteq> cur)"
  from i have "next_possible cur P 0 P = Some (P ! ((i + 1) mod length P))"
    by (intro next_possible_first) simp_all
  with two none show "select_this_tool E s P = Some (P ! ((i + 1) mod length P))"
    by (simp add: select_this_tool_def first_other_visible_find cur)
next
  assume one: "\<forall>b \<in> set (pre @ s # post).
      type b = ChangeTool \<and> is_pressed A E b msg \<longrightarrow> tool b = u"
  have "s \<in> set (pre @ s # post)" by simp
  with one ty hit have s: "tool s = u" by blast
  from select_this_tool_cases [of E s P] show "select_this_tool E s P = u"
  proof
    assume "select_this_tool E s P = tool s"
    with s show ?thesis by simp
  next
    assume "\<exists>p \<in> set P. select_this_tool E s P = Some p"
    then obtain p where p: "p \<in> set P" "select_this_tool E s P = Some p" by blast
    from p(1) obtain b where "b \<in> set (pre @ s # post)" "type b = ChangeTool"
        "tool b = Some p" "is_pressed A E b msg"
      unfolding P by auto
    with one have "Some p = u" by metis
    with p(2) show ?thesis by simp
  qed
qed

text \<open>
  Three instances with the current tool 11: the tools 11, 12 (hidden) and 13 on one chord
  give 13; the tools 11 and 12 (hidden) give 12, the candidate after the current tool;
  tool 13 alone gives 13.
\<close>

theorem C1_tool_tiebreak_witness:
  "onProcessMessage_KeyDown ex_api ex_env
     (registered ex_api ex_env
        [RegTool ''M'' (Some 11), RegTool ''M'' (Some 12), RegTool ''M'' (Some 13)]) msg_M =
     ([MenuBar_cancelMenuLoop, ToolBar_selectTool (Some 13)], ReturnTrue) \<and>
   onProcessMessage_KeyDown ex_api ex_env
     (registered ex_api ex_env [RegTool ''M'' (Some 11), RegTool ''M'' (Some 12)]) msg_M =
     ([MenuBar_cancelMenuLoop, ToolBar_selectTool (Some 12)], ReturnTrue) \<and>
   onProcessMessage_KeyDown ex_api ex_env
     (registered ex_api ex_env [RegTool ''M'' (Some 13)]) msg_M =
     ([MenuBar_cancelMenuLoop, ToolBar_selectTool (Some 13)], ReturnTrue)"
proof (intro conjI)
  from C1_tool_tiebreak [where A = ex_api and E = ex_env and msg = msg_M and pre = "[]"
      and s = "ex_tool ''M'' 11" and post = "[ex_tool ''M'' 12, ex_tool ''M'' 13]"
      and P = "[11, 12, 13]" and u = None,
      OF ex_not_on_top ex_no_pre ex_pressed_M ex_tool_fields(1) _ _ refl]
    ex_registry_inv(1) ex_pressed_tools(1)
  obtain sel where r: "onProcessMessage_KeyDown ex_api ex_env
        [ex_tool ''M'' 11, ex_tool ''M'' 12, ex_tool ''M'' 13] msg_M =
        ([MenuBar_cancelMenuLoop, ToolBar_selectTool sel], ReturnTrue)"
    and sel: "sel = Some 13"
    by auto
  then show "onProcessMessage_KeyDown ex_api ex_env
     (registered ex_api ex_env
        [RegTool ''M'' (Some 11), RegTool ''M'' (Some 12), RegTool ''M'' (Some 13)]) msg_M =
     ([MenuBar_cancelMenuLoop, ToolBar_selectTool (Some 13)], ReturnTrue)"
    by (simp add: ex_registered_tools)
next
  from C1_tool_tiebreak [where A = ex_api and E = ex_env and msg = msg_M and pre = "[]"
      and s = "ex_tool ''M'' 11" and post = "[ex_tool ''M'' 12]" and P = "[11, 12]" and u = None,
      OF ex_not_on_top ex_no_pre ex_pressed_M ex_tool_fields(1) _ _ refl]
    ex_registry_inv(2) ex_pressed_tools(2)
  obtain sel where r: "onProcessMessage_KeyDown ex_api ex_env
        [ex_tool ''M'' 11, ex_tool ''M'' 12] msg_M =
        ([MenuBar_cancelMenuLoop, ToolBar_selectTool sel], ReturnTrue)"
    and sel: "sel = Some 12"
    by auto
  then show "onProcessMessage_KeyDown ex_api ex_env
     (registered ex_api ex_env [RegTool ''M'' (Some 11), RegTool ''M'' (Some 12)]) msg_M =
     ([MenuBar_cancelMenuLoop, ToolBar_selectTool (Some 12)], ReturnTrue)"
    by (simp add: ex_registered_tools)
next
  from C1_tool_tiebreak [where A = ex_api and E = ex_env and msg = msg_M and pre = "[]"
      and s = "ex_tool ''M'' 13" and post = "[]" and u = "Some 13",
      OF ex_not_on_top ex_no_pre ex_pressed_M ex_tool_fields(1) _ refl refl]
    ex_registry_inv(3)
  obtain sel where r: "onProcessMessage_KeyDown ex_api ex_env [ex_tool ''M'' 13] msg_M =
        ([MenuBar_cancelMenuLoop, ToolBar_selectTool sel], ReturnTrue)"
    and sel: "sel = Some 13"
    by auto
  then show "onProcessMessage_KeyDown ex_api ex_env
     (registered ex_api ex_env [RegTool ''M'' (Some 13)]) msg_M =
     ([MenuBar_cancelMenuLoop, ToolBar_selectTool (Some 13)], ReturnTrue)"
    by (simp add: ex_registered_tools)
qed

text \<open>
  C2. Command dispatch. When the first pressed binding in registration order is a command
  binding \<open>s\<close>, the command of \<open>s\<close> is executed, once and with the parameters stored in
  \<open>s\<close>, and the event is consumed, exactly when the walk over the windows from the top
  reaches the main desktop window with no foreground window at or above it. Otherwise
  nothing is executed and the event goes to the default processing; that is also so when
  a foreground window other than the main window is on top, where not even the menu loop
  is cancelled.
\<close>

theorem C2_command_dispatch:
  assumes "\<forall>x \<in> set pre. \<not> is_pressed A E x msg"
    and "is_pressed A E s msg"
    and "type s = ExecuteCommand"
  shows "onProcessMessage_KeyDown A E (pre @ s # post) msg =
     (if \<exists>i<length (getChildren E). isDesktop E (getChildren E ! i) \<and>
            getChildren E ! i = getMainWindow E \<and>
            (\<forall>j\<le>i. \<not> isForeground E (getChildren E ! j))
      then ([MenuBar_cancelMenuLoop, UIContext_executeCommand (command s) (params s)], ReturnTrue)
      else (if foreground_on_top E then [] else [MenuBar_cancelMenuLoop], ManagerOnProcessMessage))"
proof -
  let ?W = "\<exists>i<length (getChildren E). isDesktop E (getChildren E ! i) \<and>
            getChildren E ! i = getMainWindow E \<and>
            (\<forall>j\<le>i. \<not> isForeground E (getChildren E ! j))"
  have walk: "execute_loop E s (getChildren E) =
      (if ?W then ([UIContext_executeCommand (command s) (params s)], ReturnTrue)
       else ([], ManagerOnProcessMessage))"
    by (rule execute_loop_walk)
  have hit: "shortcut_scan A E (pre @ s # post) msg (pre @ s # post) =
      (case execute_loop E s (getChildren E) of
         (effects, r) \<Rightarrow> (MenuBar_cancelMenuLoop # effects, r))"
    by (simp add: shortcut_scan_hit [OF assms(1,2)] on_pressed_def assms(3))
  show ?thesis
  proof (cases "foreground_on_top E")
    case True
    from foreground_on_top_no_walk [OF True] have "\<not> ?W" .
    then have "(if ?W then ([MenuBar_cancelMenuLoop, UIContext_executeCommand (command s) (params s)], ReturnTrue)
      else (if foreground_on_top E then [] else [MenuBar_cancelMenuLoop], ManagerOnProcessMessage))
      = ([], ManagerOnProcessMessage)"
      using True by (simp only: if_False if_True)
    moreover from True have "onProcessMessage_KeyDown A E (pre @ s # post) msg = ([], ManagerOnProcessMessage)"
      by (simp add: onProcessMessage_KeyDown_def)
    ultimately show ?thesis by (simp only:)
  next
    case False
    then have kd: "onProcessMessage_KeyDown A E (pre @ s # post) msg =
      (case execute_loop E s (getChildren E) of
         (effects, r) \<Rightarrow> (MenuBar_cancelMenuLoop # effects, r))"
      by (simp add: onProcessMessage_KeyDown_def hit)
    show ?thesis
    proof (cases ?W)
      case True
      then have "execute_loop E s (getChildren E) =
          ([UIContext_executeCommand (command s) (params s)], ReturnTrue)"
        by (simp only: walk if_True)
      with kd have "onProcessMessage_KeyDown A E (pre @ s # post) msg =
          ([MenuBar_cancelMenuLoop, UIContext_executeCommand (command s) (params s)], ReturnTrue)"
        by simp
      with True show ?thesis by (simp only: if_True)
    next
      case nw: False
      then have "execute_loop E s (getChildren E) = ([], ManagerOnProcessMessage)"
        by (simp only: walk if_False)
      with kd have "onProcessMessage_KeyDown A E (pre @ s # post) msg =
          ([MenuBar_cancelMenuLoop], ManagerOnProcessMessage)"
        by simp
      with nw False show ?thesis by (simp only: if_False)
    qed
  qed
qed

text \<open>
  The window stacks \<open>[main]\<close>, \<open>[dialog, main]\<close> and \<open>[other, dialog, main]\<close>, the dialog
  being a foreground window.
\<close>

theorem C2_command_dispatch_witness:
  "onProcessMessage_KeyDown ex_api ex_env
     (registered ex_api ex_env [RegCommand ''Ctrl+N'' ''NewFile'' None Any]) msg_CtrlN =
     ([MenuBar_cancelMenuLoop, UIContext_executeCommand (Some 21) (Some [])], ReturnTrue) \<and>
   onProcessMessage_KeyDown ex_api (ex_env\<lparr>getChildren := [37, 30]\<rparr>)
     (registered ex_api ex_env [RegCommand ''Ctrl+N'' ''NewFile'' None Any]) msg_CtrlN =
     ([], ManagerOnProcessMessage) \<and>
   onProcessMessage_KeyDown ex_api (ex_env\<lparr>getChildren := [35, 37, 30]\<rparr>)
     (registered ex_api ex_env [RegCommand ''Ctrl+N'' ''NewFile'' None Any]) msg_CtrlN =
     ([MenuBar_cancelMenuLoop], ManagerOnProcessMessage)"
proof (intro conjI)
  show "onProcessMessage_KeyDown ex_api ex_env
     (registered ex_api ex_env [RegCommand ''Ctrl+N'' ''NewFile'' None Any]) msg_CtrlN =
     ([MenuBar_cancelMenuLoop, UIContext_executeCommand (Some 21) (Some [])], ReturnTrue)"
    using C2_command_dispatch [where A = ex_api and E = ex_env and msg = msg_CtrlN
      and pre = "[]" and s = "ex_command ''Ctrl+N'' 21 Any" and post = "[]",
      OF ex_no_pre_any ex_pressed_CtrlN(1) ex_command_fields(2)]
    by (simp add: ex_registered_command)
next
  let ?E = "ex_env\<lparr>getChildren := [37, 30]\<rparr>"
  have nw: "\<not> (\<exists>i<length (getChildren ?E). isDesktop ?E (getChildren ?E ! i) \<and>
      getChildren ?E ! i = getMainWindow ?E \<and> (\<forall>j\<le>i. \<not> isForeground ?E (getChildren ?E ! j)))"
    by (simp only: walk_execute_loop [where s = "ex_command ''Ctrl+N'' 21 Any"]) simp
  from C2_command_dispatch [where A = ex_api and E = ?E
      and msg = msg_CtrlN and pre = "[]" and s = "ex_command ''Ctrl+N'' 21 Any" and post = "[]",
      OF ex_no_pre_any ex_pressed_CtrlN(1) ex_command_fields(2)]
  have "onProcessMessage_KeyDown ex_api ?E ([] @ [ex_command ''Ctrl+N'' 21 Any]) msg_CtrlN =
      (if foreground_on_top ?E then [] else [MenuBar_cancelMenuLoop], ManagerOnProcessMessage)"
    by (simp only: nw if_False)
  then show "onProcessMessage_KeyDown ex_api ?E
     (registered ex_api ex_env [RegCommand ''Ctrl+N'' ''NewFile'' None Any]) msg_CtrlN =
     ([], ManagerOnProcessMessage)"
    by (simp add: ex_registered_command foreground_on_top_def getTopWindow_def)
next
  let ?E = "ex_env\<lparr>getChildren := [35, 37, 30]\<rparr>"
  have nw: "\<not> (\<exists>i<length (getChildren ?E). isDesktop ?E (getChildren ?E ! i) \<and>
      getChildren ?E ! i = getMainWindow ?E \<and> (\<forall>j\<le>i. \<not> isForeground ?E (getChildren ?E ! j)))"
    by (simp only: walk_execute_loop [where s = "ex_command ''Ctrl+N'' 21 Any"]) simp
  from C2_command_dispatch [where A = ex_api and E = ?E
      and msg = msg_CtrlN and pre = "[]" and s = "ex_command ''Ctrl+N'' 21 Any" and post = "[]",
      OF ex_no_pre_any ex_pressed_CtrlN(1) ex_command_fields(2)]
  have "onProcessMessage_KeyDown ex_api ?E ([] @ [ex_command ''Ctrl+N'' 21 Any]) msg_CtrlN =
      (if foreground_on_top ?E then [] else [MenuBar_cancelMenuLoop], ManagerOnProcessMessage)"
    by (simp only: nw if_False)
  then show "onProcessMessage_KeyDown ex_api ?E
     (registered ex_api ex_env [RegCommand ''Ctrl+N'' ''NewFile'' None Any]) msg_CtrlN =
     ([MenuBar_cancelMenuLoop], ManagerOnProcessMessage)"
    by (simp add: ex_registered_command foreground_on_top_def getTopWindow_def)
qed

text \<open>
  C3. A binding counts as pressed, for a key message as for the polled key array, exactly
  when its accelerator matches and its context is \<open>Any\<close> or equals the current
  interaction context.
\<close>

theorem C3_pressed_iff:
  "is_pressed A E s msg =
     (check A (accel s) msg \<and>
      (keycontext s = Any \<or> keycontext s = get_current_keycontext E)) \<and>
   is_pressed_from_key_array A E s =
     (checkFromAllegroKeyArray A (accel s) (key E) \<and>
      (keycontext s = Any \<or> keycontext s = get_current_keycontext E))"
  by (auto simp: is_pressed_def is_pressed_from_key_array_def Let_def)

text \<open>
  A binding with context \<open>Selection\<close> is not pressed in the context \<open>Normal\<close> and is pressed
  in the context \<open>Selection\<close>; a binding with context \<open>Any\<close> is pressed in both.
\<close>

theorem C3_pressed_iff_witness:
  "\<not> is_pressed ex_api ex_env (ex_command ''M'' 21 Selection) msg_M \<and>
   is_pressed ex_api ex_env_selection (ex_command ''M'' 21 Selection) msg_M \<and>
   is_pressed ex_api ex_env (ex_command ''M'' 21 Any) msg_M \<and>
   is_pressed ex_api ex_env_selection (ex_command ''M'' 21 Any) msg_M"
  by (simp add: C3_pressed_iff msg_M_def)

text \<open>
  C4. Registration is idempotent per identity. In a registry that satisfies its invariant,
  registering twice, with the chord strings \<open>s1\<close> and \<open>s2\<close>, the same command (a name that
  denotes a command, with equal parameter sets), the same tool as a tool binding or as a
  quick-tool binding, or the same action name: the second call adds no binding, the
  registry holds exactly one binding for that identity, the lookup finds the accelerator
  that the second call returned, and that accelerator matches every key message that a
  chord of \<open>s1\<close> or of \<open>s2\<close> matches.
\<close>

theorem C4_registration_idempotent:
  assumes inv: "registry_inv reg"
    and cmd: "getCommandByName E name = Some c"
    and eq: "(case ps of None \<Rightarrow> [] | Some p \<Rightarrow> p) = (case ps' of None \<Rightarrow> [] | Some p \<Rightarrow> p)"
  shows
    "(case add_keyboard_shortcut_to_execute_command A E s1 name ps kc reg of (a1, reg1) \<Rightarrow>
      case add_keyboard_shortcut_to_execute_command A E s2 name ps' kc' reg1 of (a2, reg2) \<Rightarrow>
        length reg2 = length reg1 \<and>
        length (filter (same_command c ps) reg2) = 1 \<and>
        get_accel_to_execute_command E reg2 name ps = Some a2 \<and>
        (check A (parseKeys A s1) m \<or> check A (parseKeys A s2) m \<longrightarrow> check A a2 m)) \<and>
     (case add_keyboard_shortcut_to_change_tool A s1 t reg of (a1, reg1) \<Rightarrow>
      case add_keyboard_shortcut_to_change_tool A s2 t reg1 of (a2, reg2) \<Rightarrow>
        length reg2 = length reg1 \<and>
        length (filter (for_tool t) reg2) = 1 \<and>
        get_accel_to_change_tool reg2 t = Some a2 \<and>
        (check A (parseKeys A s1) m \<or> check A (parseKeys A s2) m \<longrightarrow> check A a2 m)) \<and>
     (case add_keyboard_shortcut_to_quicktool A s1 t reg of (a1, reg1) \<Rightarrow>
      case add_keyboard_shortcut_to_quicktool A s2 t reg1 of (a2, reg2) \<Rightarrow>
        length reg2 = length reg1 \<and>
        length (filter (for_quicktool t) reg2) = 1 \<and>
        accel_at reg2 (get_keyboard_shortcut_for_quicktool reg2 t) = Some a2 \<and>
        (check A (parseKeys A s1) m \<or> check A (parseKeys A s2) m \<longrightarrow> check A a2 m)) \<and>
     (case add_keyboard_shortcut_to_spriteeditor A s1 a reg of (a1, reg1) \<Rightarrow>
      case add_keyboard_shortcut_to_spriteeditor A s2 a reg1 of (a2, reg2) \<Rightarrow>
        length reg2 = length reg1 \<and>
        length (filter (for_spriteeditor a) reg2) = 1 \<and>
        accel_at reg2 (get_keyboard_shortcut_for_spriteeditor reg2 a) = Some a2 \<and>
        (check A (parseKeys A s1) m \<or> check A (parseKeys A s2) m \<longrightarrow> check A a2 m))"
  by (intro conjI idempotent_command [OF inv cmd eq] idempotent_tool [OF inv]
      idempotent_quicktool [OF inv] idempotent_spriteeditor [OF inv])

text \<open>
  From the empty registry, with the chord strings Ctrl+N and M.
\<close>

theorem C4_registration_idempotent_witness:
  "registry_inv [] \<and> getCommandByName ex_env ''NewFile'' = Some 21 \<and>
   (case add_keyboard_shortcut_to_execute_command ex_api ex_env ''Ctrl+N'' ''NewFile'' None Any []
    of (a1, reg1) \<Rightarrow>
      case add_keyboard_shortcut_to_execute_command ex_api ex_env ''M'' ''NewFile'' (Some []) Normal reg1
      of (a2, reg2) \<Rightarrow>
        length reg2 = 1 \<and> length (filter (same_command 21 None) reg2) = 1 \<and>
        get_accel_to_execute_command ex_env reg2 ''NewFile'' None = Some a2 \<and>
        check ex_api a2 msg_CtrlN \<and> check ex_api a2 msg_M) \<and>
   (case add_keyboard_shortcut_to_change_tool ex_api ''Ctrl+N'' (Some 12) [] of (a1, reg1) \<Rightarrow>
      case add_keyboard_shortcut_to_change_tool ex_api ''M'' (Some 12) reg1 of (a2, reg2) \<Rightarrow>
        length reg2 = 1 \<and> length (filter (for_tool (Some 12)) reg2) = 1 \<and>
        get_accel_to_change_tool reg2 (Some 12) = Some a2 \<and>
        check ex_api a2 msg_CtrlN \<and> check ex_api a2 msg_M) \<and>
   (case add_keyboard_shortcut_to_quicktool ex_api ''Ctrl+N'' (Some 12) [] of (a1, reg1) \<Rightarrow>
      case add_keyboard_shortcut_to_quicktool ex_api ''M'' (Some 12) reg1 of (a2, reg2) \<Rightarrow>
        length reg2 = 1 \<and> length (filter (for_quicktool (Some 12)) reg2) = 1 \<and>
        accel_at reg2 (get_keyboard_shortcut_for_quicktool reg2 (Some 12)) = Some a2 \<and>
        check ex_api a2 msg_CtrlN \<and> check ex_api a2 msg_M) \<and>
   (case add_keyboard_shortcut_to_spriteeditor ex_api ''Ctrl+N'' ''SnapToGrid'' [] of (a1, reg1) \<Rightarrow>
      case add_keyboard_shortcut_to_spriteeditor ex_api ''M'' ''SnapToGrid'' reg1 of (a2, reg2) \<Rightarrow>
        length reg2 = 1 \<and> length (filter (for_spriteeditor ''SnapToGrid'') reg2) = 1 \<and>
        accel_at reg2 (get_keyboard_shortcut_for_spriteeditor reg2 ''SnapToGrid'') = Some a2 \<and>
        check ex_api a2 msg_CtrlN \<and> check ex_api a2 msg_M)"
proof -
  have cmd: "getCommandByName ex_env ''NewFile'' = Some 21" by simp
  have eq: "(case None of None \<Rightarrow> [] | Some p \<Rightarrow> p) =
      (case Some [] of None \<Rightarrow> ([] :: Params) | Some p \<Rightarrow> p)" by simp
  have len:
    "length (snd (add_keyboard_shortcut_to_execute_command ex_api ex_env ''Ctrl+N'' ''NewFile'' None Any [])) = 1"
    "length (snd (add_keyboard_shortcut_to_change_tool ex_api ''Ctrl+N'' (Some 12) [])) = 1"
    "length (snd (add_keyboard_shortcut_to_quicktool ex_api ''Ctrl+N'' (Some 12) [])) = 1"
    "length (snd (add_keyboard_shortcut_to_spriteeditor ex_api ''Ctrl+N'' ''SnapToGrid'' [])) = 1"
    by (simp_all add: registration_defs)
  have ev: "check ex_api (parseKeys ex_api ''Ctrl+N'') msg_CtrlN" "check ex_api (parseKeys ex_api ''M'') msg_M"
    by (simp_all add: msg_CtrlN_def msg_M_def)
  note c4 = C4_registration_idempotent [OF registry_inv_Nil cmd eq, where A = ex_api
      and ?s1.0 = "''Ctrl+N''" and ?s2.0 = "''M''" and kc = Any and kc' = Normal
      and t = "Some 12" and a = "''SnapToGrid''"]
  from c4 [where m = msg_CtrlN] c4 [where m = msg_M] registry_inv_Nil cmd
  show ?thesis
    by (simp only: case_prod_beta len ev simp_thms)
qed

text \<open>
  C5. The quick-tool query returns no tool when the ink of the given current tool is a
  selection ink and the accelerator of the copy-selection binding is held; otherwise it
  returns the first tool of the toolbox whose quick-tool binding is pressed in the key
  array (with the context test), or no tool when there is none.
\<close>

theorem C5_quicktool:
  "get_selected_quicktool A E reg cur =
     (if (\<exists>t. cur = Some t \<and> inkIsSelection E t) \<and>
         (\<exists>i. get_keyboard_shortcut_for_spriteeditor reg SPRITEDITOR_ACTION_COPYSELECTION = Some i \<and>
              checkFromAllegroKeyArray A (accel (reg ! i)) (key E))
      then None
      else find (\<lambda>t. \<exists>i. get_keyboard_shortcut_for_quicktool reg (Some t) = Some i \<and>
                         is_pressed_from_key_array A E (reg ! i)) (toolbox E))"
  by (auto simp: get_selected_quicktool_def quicktool_loop_find get_accel_to_copy_selection_def
      accel_at_def split: option.splits)

text \<open>
  With the keys of the copy-selection chord and of the quick-tool chord of tool 12 both
  down: no quick tool when the current tool has a selection ink, tool 12 when it has not.
\<close>

theorem C5_quicktool_witness:
  "get_selected_quicktool ex_api (ex_env\<lparr>key := [0, 13]\<rparr>)
     (registered ex_api ex_env
        [RegSpriteEditor ''Ctrl'' SPRITEDITOR_ACTION_COPYSELECTION, RegQuicktool ''M'' (Some 12)])
     (Some 13) = None \<and>
   get_selected_quicktool ex_api (ex_env\<lparr>key := [0, 13]\<rparr>)
     (registered ex_api ex_env
        [RegSpriteEditor ''Ctrl'' SPRITEDITOR_ACTION_COPYSELECTION, RegQuicktool ''M'' (Some 12)])
     (Some 11) = Some 12 \<and>
   get_selected_quicktool ex_api (ex_env\<lparr>key := [0]\<rparr>)
     (registered ex_api ex_env
        [RegSpriteEditor ''Ctrl'' SPRITEDITOR_ACTION_COPYSELECTION, RegQuicktool ''M'' (Some 12)])
     (Some 11) = None"
  by (simp add: C5_quicktool ex_registered_quick ex_quick_lookups is_pressed_from_key_array_def)

text \<open>
  C6. The interaction context is \<open>Selection\<close> exactly when there is an active document
  whose selection mask is visible and the ink of the current tool is a selection ink;
  in every other case, also with no active document, it is \<open>Normal\<close>.
\<close>

theorem C6_keycontext:
  "get_current_keycontext E =
     (if (\<exists>doc. activeDocument E = Some doc \<and> isMaskVisible doc) \<and>
         inkIsSelection E (getCurrentTool E)
      then Selection else Normal)"
  by (simp add: get_current_keycontext_def split: option.split)

text \<open>
  C7. Round trip. After registering the chord string Ctrl+N for the command named NewFile,
  with empty parameters and the context \<open>Any\<close>, in the empty registry, a key message that
  the accelerator of that chord string matches resolves to the command that the name
  NewFile denotes, with the empty parameter set.
\<close>

theorem C7_roundtrip:
  assumes cmd: "getCommandByName E ''NewFile'' = Some c"
    and ev: "check A (parseKeys A ''Ctrl+N'') msg"
    and ps: "ps = None \<or> ps = Some []"
  shows "get_command_from_key_message A E
           (snd (add_keyboard_shortcut_to_execute_command A E ''Ctrl+N'' ''NewFile'' ps Any []))
           msg = Some (Some c, Some [])"
  using ps ev
  by (auto simp: add_keyboard_shortcut_to_execute_command_def get_keyboard_shortcut_for_command_def
      cmd Let_def new_Shortcut_def add_shortcut_def addKeysFromString_def is_pressed_def)

text \<open>
  With command 21 named NewFile.
\<close>

theorem C7_roundtrip_witness:
  "getCommandByName ex_env ''NewFile'' = Some 21 \<and>
   check ex_api (parseKeys ex_api ''Ctrl+N'') msg_CtrlN \<and>
   get_command_from_key_message ex_api ex_env
     (snd (add_keyboard_shortcut_to_execute_command ex_api ex_env ''Ctrl+N'' ''NewFile'' (Some []) Any []))
     msg_CtrlN = Some (Some 21, Some [])"
proof -
  have a: "getCommandByName ex_env ''NewFile'' = Some 21" by simp
  have b: "check ex_api (parseKeys ex_api ''Ctrl+N'') msg_CtrlN" by (simp add: msg_CtrlN_def)
  have c: "Some [] = None \<or> Some [] = Some ([] :: Params)" by simp
  from a b C7_roundtrip [OF a b c] show ?thesis by (simp only: simp_thms)
qed

text \<open>
  C8, as the code has it. When two or more tool bindings are pressed, no candidate is a
  visible tool other than the current one, and the current tool is not a candidate, the
  handler selects the tool of the binding that was hit, the first pressed binding in
  registration order, and consumes the event.
\<close>

theorem C8_fallback_selects_hit_tool:
  assumes top: "\<not> foreground_on_top E"
    and pre: "\<forall>x \<in> set pre. \<not> is_pressed A E x msg"
    and hit: "is_pressed A E s msg"
    and ty: "type s = ChangeTool"
    and two: "2 \<le> length (possibles A E (pre @ s # post) msg)"
    and none: "\<forall>p \<in> set (possibles A E (pre @ s # post) msg).
                 p = getCurrentTool E \<or> \<not> isToolVisible E p"
    and cur: "getCurrentTool E \<notin> set (possibles A E (pre @ s # post) msg)"
  shows "onProcessMessage_KeyDown A E (pre @ s # post) msg =
           ([MenuBar_cancelMenuLoop, ToolBar_selectTool (tool s)], ReturnTrue)"
proof -
  from none have "find (\<lambda>p. p \<noteq> getCurrentTool E \<and> isToolVisible E p)
      (possibles A E (pre @ s # post) msg) = None"
    by (auto simp: find_None_iff)
  with two cur have "select_this_tool E s (possibles A E (pre @ s # post) msg) = tool s"
    by (simp add: select_this_tool_def first_other_visible_find next_possible_None)
  with change_tool_hit [OF top pre hit ty] show ?thesis by simp
qed

text \<open>
  The hidden tools 12 and 14 on one chord, the current tool being 11.
\<close>

theorem C8_fallback_selects_hit_tool_witness:
  "2 \<le> length (possibles ex_api ex_env [ex_tool ''M'' 12, ex_tool ''M'' 14] msg_M) \<and>
   getCurrentTool ex_env \<notin> set (possibles ex_api ex_env [ex_tool ''M'' 12, ex_tool ''M'' 14] msg_M) \<and>
   onProcessMessage_KeyDown ex_api ex_env
     (registered ex_api ex_env [RegTool ''M'' (Some 12), RegTool ''M'' (Some 14)]) msg_M =
     ([MenuBar_cancelMenuLoop, ToolBar_selectTool (Some 12)], ReturnTrue)"
  using C8_fallback_selects_hit_tool [where A = ex_api and E = ex_env and msg = msg_M
      and pre = "[]" and s = "ex_tool ''M'' 12" and post = "[ex_tool ''M'' 14]",
      OF ex_not_on_top ex_no_pre ex_pressed_M ex_tool_fields(1)]
  by (simp add: ex_possibles ex_registered_tools)

text \<open>
  C8, as the specification states it (no tool is selected in that case), fails: in the
  registry built by registering the hidden tools 12 and 14 on the chord M, with the
  current tool 11, the candidates are 12 and 14, none is visible, the current tool is not
  among them, and the handler selects tool 12.
\<close>

theorem C8_no_selection_counterexample:
  "possibles ex_api ex_env
     (registered ex_api ex_env [RegTool ''M'' (Some 12), RegTool ''M'' (Some 14)]) msg_M = [12, 14] \<and>
   \<not> isToolVisible ex_env 12 \<and> \<not> isToolVisible ex_env 14 \<and>
   getCurrentTool ex_env = 11 \<and>
   onProcessMessage_KeyDown ex_api ex_env
     (registered ex_api ex_env [RegTool ''M'' (Some 12), RegTool ''M'' (Some 14)]) msg_M =
     ([MenuBar_cancelMenuLoop, ToolBar_selectTool (Some 12)], ReturnTrue)"
  by (simp add: ex_registered_tools ex_possibles onProcessMessage_KeyDown_def on_pressed_def
      select_this_tool_def)

text \<open>
  C9. Absence is not an error. In a registry built by registration calls: for a command
  name whose command no call registered, the lookup and the accessor return nothing, the
  resolution of a key message never yields that command and the dispatch never executes
  it; for a tool that no call registered as a tool binding, the lookup and the accessor
  return nothing and the dispatch never selects it; for a tool that no call registered
  as a quick tool, the lookup returns nothing and the quick-tool query never returns it;
  for an action name that no call registered, the lookup and the accessor of that action
  return nothing. When no binding is pressed, the resolution returns nothing and the
  dispatch does nothing and hands the event to the default processing.
\<close>

theorem C9_absence:
  assumes reg: "reg = registered A E calls"
  shows
   "(getCommandByName E name = None \<or>
     (\<forall>str n q kc. RegCommand str n q kc \<in> set calls \<longrightarrow>
        getCommandByName E n \<noteq> getCommandByName E name) \<longrightarrow>
      get_keyboard_shortcut_for_command E reg name ps = None \<and>
      get_accel_to_execute_command E reg name ps = None \<and>
      (\<forall>c q. getCommandByName E name = Some c \<longrightarrow>
         get_command_from_key_message A E reg msg \<noteq> Some (Some c, q) \<and>
         UIContext_executeCommand (Some c) q \<notin> set (fst (onProcessMessage_KeyDown A E reg msg)))) \<and>
    ((\<forall>str. RegTool str t \<notin> set calls) \<longrightarrow>
      get_keyboard_shortcut_for_tool reg t = None \<and>
      get_accel_to_change_tool reg t = None \<and>
      ToolBar_selectTool t \<notin> set (fst (onProcessMessage_KeyDown A E reg msg))) \<and>
    ((\<forall>str. RegQuicktool str (Some u) \<notin> set calls) \<longrightarrow>
      get_keyboard_shortcut_for_quicktool reg (Some u) = None \<and>
      get_selected_quicktool A E reg cur \<noteq> Some u) \<and>
    ((\<forall>str. RegSpriteEditor str a \<notin> set calls) \<longrightarrow>
      get_keyboard_shortcut_for_spriteeditor reg a = None \<and>
      (a = SPRITEDITOR_ACTION_COPYSELECTION \<longrightarrow> get_accel_to_copy_selection reg = None) \<and>
      (a = SPRITEDITOR_ACTION_SNAPTOGRID \<longrightarrow> get_accel_to_snap_to_grid reg = None) \<and>
      (a = SPRITEDITOR_ACTION_ANGLESNAP \<longrightarrow> get_accel_to_angle_snap reg = None) \<and>
      (a = SPRITEDITOR_ACTION_MAINTAINASPECTRATIO \<longrightarrow>
         get_accel_to_maintain_aspect_ratio reg = None) \<and>
      (a = SPRITEDITOR_ACTION_LOCKAXIS \<longrightarrow> get_accel_to_lock_axis reg = None) \<and>
      (a = SPRITEDITOR_ACTION_ADDSEL \<longrightarrow> get_accel_to_add_selection reg = None) \<and>
      (a = SPRITEDITOR_ACTION_SUBSEL \<longrightarrow> get_accel_to_subtract_selection reg = None)) \<and>
    ((\<forall>s \<in> set reg. \<not> is_pressed A E s msg) \<longrightarrow>
      get_command_from_key_message A E reg msg = None \<and>
      onProcessMessage_KeyDown A E reg msg = ([], ManagerOnProcessMessage))"
proof (intro conjI impI allI)
  assume h: "getCommandByName E name = None \<or>
     (\<forall>str n q kc. RegCommand str n q kc \<in> set calls \<longrightarrow>
        getCommandByName E n \<noteq> getCommandByName E name)"
  have none: "\<not> (type s = ExecuteCommand \<and> command s = Some c)"
    if "getCommandByName E name = Some c" "s \<in> set reg" for s c
  proof (rule no_command_binding)
    from h that(1) show "\<forall>str n q kc. RegCommand str n q kc \<in> set calls \<longrightarrow>
        getCommandByName E n \<noteq> Some c" by auto
    from that(2) show "s \<in> set (registered A E calls)" by (simp add: reg)
  qed
  show look: "get_keyboard_shortcut_for_command E reg name ps = None"
  proof (cases "getCommandByName E name")
    case None
    then show ?thesis by (simp add: get_keyboard_shortcut_for_command_def)
  next
    case (Some c)
    with none have "\<forall>s \<in> set reg. \<not> same_command c ps s" by (auto simp: same_command_def)
    with Some show ?thesis
      by (simp add: get_keyboard_shortcut_for_command_def first_index_None_iff)
  qed
  then show "get_accel_to_execute_command E reg name ps = None"
    by (simp add: get_accel_to_execute_command_def accel_at_def)
  fix c q assume c: "getCommandByName E name = Some c"
  show "get_command_from_key_message A E reg msg \<noteq> Some (Some c, q)"
  proof
    assume "get_command_from_key_message A E reg msg = Some (Some c, q)"
    from get_command_from_key_message_SomeD [OF this] none [OF c] show False by blast
  qed
  show "UIContext_executeCommand (Some c) q \<notin> set (fst (onProcessMessage_KeyDown A E reg msg))"
  proof
    assume "UIContext_executeCommand (Some c) q \<in> set (fst (onProcessMessage_KeyDown A E reg msg))"
    from key_down_execute [OF this] none [OF c] show False by blast
  qed
next
  assume h: "\<forall>str. RegTool str t \<notin> set calls"
  have none: "\<forall>s \<in> set reg. \<not> for_tool t s"
    using no_tool_binding [OF h] by (simp add: reg)
  then show look: "get_keyboard_shortcut_for_tool reg t = None"
    by (simp add: get_keyboard_shortcut_for_tool_def first_index_None_iff)
  then show "get_accel_to_change_tool reg t = None"
    by (simp add: get_accel_to_change_tool_def accel_at_def)
  show "ToolBar_selectTool t \<notin> set (fst (onProcessMessage_KeyDown A E reg msg))"
    using key_down_select [of t A E reg msg] none by blast
next
  assume h: "\<forall>str. RegQuicktool str (Some u) \<notin> set calls"
  have none: "\<forall>s \<in> set reg. \<not> for_quicktool (Some u) s"
    using no_quicktool_binding [OF h] by (simp add: reg)
  then show "get_keyboard_shortcut_for_quicktool reg (Some u) = None"
    by (simp add: get_keyboard_shortcut_for_quicktool_def first_index_None_iff)
  show "get_selected_quicktool A E reg cur \<noteq> Some u"
    using quicktool_bound [of A E reg cur u] none by blast
next
  assume h: "\<forall>str. RegSpriteEditor str a \<notin> set calls"
  have none: "\<forall>s \<in> set reg. \<not> for_spriteeditor a s"
    using no_spriteeditor_binding [OF h] by (simp add: reg)
  then show look: "get_keyboard_shortcut_for_spriteeditor reg a = None"
    by (simp add: get_keyboard_shortcut_for_spriteeditor_def first_index_None_iff)
  { assume "a = SPRITEDITOR_ACTION_COPYSELECTION"
    with look show "get_accel_to_copy_selection reg = None"
      by (simp add: get_accel_to_copy_selection_def accel_at_def) }
  { assume "a = SPRITEDITOR_ACTION_SNAPTOGRID"
    with look show "get_accel_to_snap_to_grid reg = None"
      by (simp add: get_accel_to_snap_to_grid_def accel_at_def) }
  { assume "a = SPRITEDITOR_ACTION_ANGLESNAP"
    with look show "get_accel_to_angle_snap reg = None"
      by (simp add: get_accel_to_angle_snap_def accel_at_def) }
  { assume "a = SPRITEDITOR_ACTION_MAINTAINASPECTRATIO"
    with look show "get_accel_to_maintain_aspect_ratio reg = None"
      by (simp add: get_accel_to_maintain_aspect_ratio_def accel_at_def) }
  { assume "a = SPRITEDITOR_ACTION_LOCKAXIS"
    with look show "get_accel_to_lock_axis reg = None"
      by (simp add: get_accel_to_lock_axis_def accel_at_def) }
  { assume "a = SPRITEDITOR_ACTION_ADDSEL"
    with look show "get_accel_to_add_selection reg = None"
      by (simp add: get_accel_to_add_selection_def accel_at_def) }
  { assume "a = SPRITEDITOR_ACTION_SUBSEL"
    with look show "get_accel_to_subtract_selection reg = None"
      by (simp add: get_accel_to_subtract_selection_def accel_at_def) }
next
  assume h: "\<forall>s \<in> set reg. \<not> is_pressed A E s msg"
  then show "get_command_from_key_message A E reg msg = None"
    by (rule get_command_from_key_message_None)
  from h show "onProcessMessage_KeyDown A E reg msg = ([], ManagerOnProcessMessage)"
    by (simp add: onProcessMessage_KeyDown_def shortcut_scan_none)
qed

text \<open>
  A registry with one tool binding, for tool 11 on the chord M, asked about the command
  NewFile, tool 12, the copy-selection action and the key message Ctrl+N.
\<close>

theorem C9_absence_witness:
  "get_keyboard_shortcut_for_command ex_env
     (registered ex_api ex_env [RegTool ''M'' (Some 11)]) ''NewFile'' None = None \<and>
   get_accel_to_execute_command ex_env
     (registered ex_api ex_env [RegTool ''M'' (Some 11)]) ''NewFile'' None = None \<and>
   get_keyboard_shortcut_for_tool (registered ex_api ex_env [RegTool ''M'' (Some 11)]) (Some 12) = None \<and>
   get_accel_to_change_tool (registered ex_api ex_env [RegTool ''M'' (Some 11)]) (Some 12) = None \<and>
   get_keyboard_shortcut_for_quicktool
     (registered ex_api ex_env [RegTool ''M'' (Some 11)]) (Some 12) = None \<and>
   get_selected_quicktool ex_api ex_env
     (registered ex_api ex_env [RegTool ''M'' (Some 11)]) (Some 11) \<noteq> Some 12 \<and>
   get_keyboard_shortcut_for_spriteeditor
     (registered ex_api ex_env [RegTool ''M'' (Some 11)]) SPRITEDITOR_ACTION_COPYSELECTION = None \<and>
   get_accel_to_copy_selection (registered ex_api ex_env [RegTool ''M'' (Some 11)]) = None \<and>
   get_command_from_key_message ex_api ex_env
     (registered ex_api ex_env [RegTool ''M'' (Some 11)]) msg_CtrlN = None \<and>
   onProcessMessage_KeyDown ex_api ex_env
     (registered ex_api ex_env [RegTool ''M'' (Some 11)]) msg_CtrlN = ([], ManagerOnProcessMessage)"
proof -
  have np: "\<forall>s \<in> set (registered ex_api ex_env [RegTool ''M'' (Some 11)]).
      \<not> is_pressed ex_api ex_env s msg_CtrlN"
    by (simp add: ex_registered_tool11)
  from C9_absence [OF refl, where A = ex_api and E = ex_env
      and calls = "[RegTool ''M'' (Some 11)]" and name = "''NewFile''" and ps = None
      and t = "Some 12" and u = 12 and a = SPRITEDITOR_ACTION_COPYSELECTION
      and msg = msg_CtrlN and cur = "Some 11"] np
  show ?thesis by simp
qed

text \<open>
  C10. When the first pressed binding in registration order is a quick-tool binding or a
  sprite-editor binding, the scan ends there: whatever bindings follow it in the
  registry, the handler executes no command and selects no tool (it only cancels the menu
  loop, and not even that below a foreground window), and the event goes to the default
  processing.
\<close>

theorem C10_quicktool_hit_ends_scan:
  assumes "\<forall>x \<in> set pre. \<not> is_pressed A E x msg"
    and "is_pressed A E s msg"
    and "type s = EditorQuicktool \<or> type s = SpriteEditor"
  shows "onProcessMessage_KeyDown A E (pre @ s # post) msg =
     (if foreground_on_top E then [] else [MenuBar_cancelMenuLoop], ManagerOnProcessMessage)"
  using assms(3)
  by (auto simp: onProcessMessage_KeyDown_def shortcut_scan_hit [OF assms(1,2)] on_pressed_def)

text \<open>
  A quick-tool binding, and a sprite-editor binding, registered on Ctrl+N before the
  command NewFile on the same chord.
\<close>

theorem C10_quicktool_hit_ends_scan_witness:
  "onProcessMessage_KeyDown ex_api ex_env
     (registered ex_api ex_env
        [RegQuicktool ''Ctrl+N'' (Some 12), RegCommand ''Ctrl+N'' ''NewFile'' None Any]) msg_CtrlN =
     ([MenuBar_cancelMenuLoop], ManagerOnProcessMessage) \<and>
   onProcessMessage_KeyDown ex_api ex_env
     (registered ex_api ex_env
        [RegSpriteEditor ''Ctrl+N'' ''SnapToGrid'', RegCommand ''Ctrl+N'' ''NewFile'' None Any]) msg_CtrlN =
     ([MenuBar_cancelMenuLoop], ManagerOnProcessMessage)"
  using C10_quicktool_hit_ends_scan [where A = ex_api and E = ex_env and msg = msg_CtrlN
      and pre = "[]" and s = "ex_quicktool ''Ctrl+N'' 12"
      and post = "[ex_command ''Ctrl+N'' 21 Any]", OF ex_no_pre_any ex_pressed_CtrlN(2)]
    C10_quicktool_hit_ends_scan [where A = ex_api and E = ex_env and msg = msg_CtrlN
      and pre = "[]" and s = "ex_spriteeditor ''Ctrl+N'' ''SnapToGrid''"
      and post = "[ex_command ''Ctrl+N'' 21 Any]", OF ex_no_pre_any ex_pressed_CtrlN(3)]
  by (simp add: ex_registered_command)

end
